theory Spec2Isabelle
  imports Main "HOL-Library.AList"
begin

section \<open>The client-side transaction coordinator (yb/client/transaction.cc)\<close>

text \<open>
  A shallow embedding of \<^verbatim>\<open>YBTransaction::Impl\<close>. Every member function is a
  function on the record \<open>Impl\<close> of the object's fields. The model is sequential: a run
  of the coordinator is a sequence of member-function calls and callback deliveries, each
  running to completion on the state the previous one left (the function \<open>run\<close> below).
  What several reactor threads could interleave inside one member function, after it has
  released the mutex, is not modelled. Calls into the collaborators (the transaction
  manager, the tablet lookup, the RPC registry, the scheduler, the user's callbacks, the
  log) are appended, in program order, to the field \<open>calls\<close>.

  Build mode: a release build. \<^verbatim>\<open>DCHECK\<close> is compiled out and
  \<^verbatim>\<open>LOG(DFATAL)\<close> only logs; a failed \<^verbatim>\<open>CHECK\<close>, a null
  \<^verbatim>\<open>status_tablet_\<close> that is dereferenced and an empty \<^verbatim>\<open>std::function\<close>
  that is called end the run with a \<open>failure\<close>.

  Left out: the \<^verbatim>\<open>VLOG\<close> lines, \<^verbatim>\<open>log_prefix_\<close>, the shared-pointer
  bookkeeping, the test-only \<^verbatim>\<open>TEST_GetMetadata\<close> with its promise, and the
  propagated hybrid time that each request reads from the clock. The three RPC handles
  appear as the names under which \<^verbatim>\<open>RegisterAndStart\<close> and \<^verbatim>\<open>Unregister\<close> are
  called. A member \<^verbatim>\<open>name_\<close> of the class is the field \<open>name\<close> of the record.
\<close>

subsection \<open>Types of the collaborators\<close>

type_synonym TabletId = string
type_synonym TransactionId = string

datatype HybridTime = kInvalid | HybridTime nat

text \<open>The status codes: the three the coordinator tells apart or produces, some of the
  codes an RPC can fail with, and \<open>kOtherCode\<close> for the rest of the enumeration.\<close>

datatype StatusCode =
  kTryAgain | kExpired | kIllegalState | kTimedOut | kNotFound | kNetworkError
  | kServiceUnavailable | kInternalError | kOtherCode nat

text \<open>\<^verbatim>\<open>yb::Status\<close>: \<^verbatim>\<open>Status::OK()\<close>, or an error code with its message
  (\<^verbatim>\<open>STATUS(code, message)\<close>).\<close>

datatype Status = OK | STATUS StatusCode string

fun ok :: "Status \<Rightarrow> bool" where
  "ok OK = True"
| "ok (STATUS c m) = False"

fun IsTryAgain :: "Status \<Rightarrow> bool" where
  "IsTryAgain OK = False"
| "IsTryAgain (STATUS c m) = (c = kTryAgain)"

fun IsExpired :: "Status \<Rightarrow> bool" where
  "IsExpired OK = False"
| "IsExpired (STATUS c m) = (c = kExpired)"

text \<open>\<^verbatim>\<open>Result<T>\<close>: a value, or a status that is not OK.\<close>

datatype 'a Result = Value 'a | Failed StatusCode string

fun status_of :: "'a Result \<Rightarrow> Status" where
  "status_of (Value v) = OK"
| "status_of (Failed c m) = STATUS c m"

datatype IsolationLevel = NON_TRANSACTIONAL | SNAPSHOT_ISOLATION | SERIALIZABLE_ISOLATION

datatype TransactionStatus = CREATED | PENDING | COMMITTED

datatype TransactionState = kRunning | kAborted | kCommitted

record TransactionMetadata =
  transaction_id :: TransactionId
  isolation :: IsolationLevel
  status_tablet_id :: TabletId
  priority :: nat
  start_time :: HybridTime

text \<open>An in-flight operation, as far as the coordinator reads it:
  \<^verbatim>\<open>op->tablet->tablet_id()\<close> and \<^verbatim>\<open>op->yb_op->succeeded()\<close>.\<close>

record InFlightOp =
  tablet :: TabletId
  yb_op_succeeded :: bool

record TabletState =
  has_parameters :: bool

type_synonym TabletStates = "(TabletId \<times> TabletState) list"

record TransactionInvolvedTabletPB =
  pb_tablet_id :: TabletId
  pb_has_parameters :: bool

subsection \<open>The read point\<close>

text \<open>Modelled from the spec: \<^verbatim>\<open>ConsistentReadPoint\<close> (yb/common/consistent_read_point)
  is not among the sources. Spec section 3: a read point is the read time, the per-shard
  local limits and the flag \<open>restart_required\<close>.\<close>

record ConsistentReadPoint =
  read_time :: HybridTime
  local_limits :: "TabletId \<rightharpoonup> HybridTime"
  restart_required :: bool

record ChildTransactionDataPB =
  data_metadata :: TransactionMetadata
  data_read_time :: HybridTime
  data_local_limits :: "TabletId \<rightharpoonup> HybridTime"

record ChildTransactionResultPB =
  result_tablets :: "TransactionInvolvedTabletPB list"
  result_local_limits :: "TabletId \<rightharpoonup> HybridTime"
  result_restart_required :: bool

text \<open>Modelled from the spec: the constructor \<^verbatim>\<open>ConsistentReadPoint(clock)\<close>; no read
  time yet, no local limits, no restart required.\<close>

definition ConsistentReadPoint_new :: ConsistentReadPoint where
  "ConsistentReadPoint_new =
     \<lparr>read_time = kInvalid, local_limits = Map.empty, restart_required = False\<rparr>"

text \<open>Modelled from the spec: \<^verbatim>\<open>SetCurrentReadTime()\<close> samples the manager clock
  (the sample is the argument \<open>now\<close>).\<close>

definition SetCurrentReadTime :: "HybridTime \<Rightarrow> ConsistentReadPoint \<Rightarrow> ConsistentReadPoint" where
  "SetCurrentReadTime now rp = rp\<lparr>read_time := now\<rparr>"

text \<open>Modelled from the spec: \<^verbatim>\<open>GetReadTime()\<close>.\<close>

definition GetReadTime :: "ConsistentReadPoint \<Rightarrow> HybridTime" where
  "GetReadTime rp = read_time rp"

text \<open>Modelled from the spec: \<^verbatim>\<open>SetReadTime(ht, local_limits)\<close>, used by child adoption.\<close>

definition SetReadTime ::
  "HybridTime \<Rightarrow> (TabletId \<rightharpoonup> HybridTime) \<Rightarrow> ConsistentReadPoint \<Rightarrow> ConsistentReadPoint" where
  "SetReadTime ht limits rp = rp\<lparr>read_time := ht, local_limits := limits\<rparr>"

text \<open>Modelled from the spec: \<^verbatim>\<open>IsRestartRequired()\<close>.\<close>

definition IsRestartRequired :: "ConsistentReadPoint \<Rightarrow> bool" where
  "IsRestartRequired rp = restart_required rp"

text \<open>Modelled from the spec: \<^verbatim>\<open>Restart()\<close> clears the flag and advances the read time
  past the highest conflicting observation; the spec's data model does not hold that
  observation, so the advanced read time is the argument \<open>restart_time\<close>.\<close>

definition Restart :: "HybridTime \<Rightarrow> ConsistentReadPoint \<Rightarrow> ConsistentReadPoint" where
  "Restart restart_time rp = rp\<lparr>read_time := restart_time, restart_required := False\<rparr>"

text \<open>Modelled from the spec: \<^verbatim>\<open>PrepareChildTransactionData(out)\<close> writes the read time
  and the local limits.\<close>

definition PrepareChildTransactionData ::
  "ConsistentReadPoint \<Rightarrow> ChildTransactionDataPB \<Rightarrow> ChildTransactionDataPB" where
  "PrepareChildTransactionData rp out =
     out\<lparr>data_read_time := read_time rp, data_local_limits := local_limits rp\<rparr>"

text \<open>Modelled from the spec: \<^verbatim>\<open>FinishChildTransactionResult(out)\<close> writes back the
  child's local limits and its restart flag.\<close>

definition FinishChildTransactionResult ::
  "ConsistentReadPoint \<Rightarrow> ChildTransactionResultPB \<Rightarrow> ChildTransactionResultPB" where
  "FinishChildTransactionResult rp out =
     out\<lparr>result_local_limits := local_limits rp,
         result_restart_required := restart_required rp\<rparr>"

text \<open>Modelled from the spec: \<^verbatim>\<open>ApplyChildTransactionResult(in)\<close> merges the child's
  updates: the union of the local limits (a shard the child reports takes the child's limit)
  and the disjunction of the restart flags.\<close>

definition ApplyChildTransactionResult ::
  "ChildTransactionResultPB \<Rightarrow> ConsistentReadPoint \<Rightarrow> ConsistentReadPoint" where
  "ApplyChildTransactionResult result rp =
     rp\<lparr>local_limits := local_limits rp ++ result_local_limits result,
        restart_required := (restart_required rp \<or> result_restart_required result)\<rparr>"

subsection \<open>Waiters, calls on the collaborators, failures\<close>

text \<open>A waiter is a closure \<^verbatim>\<open>void(const Status&)\<close>. The coordinator enqueues four kinds:
  the caller's waiter of \<^verbatim>\<open>Prepare\<close> (named by a number) and the three bound member
  functions \<^verbatim>\<open>DoCommit\<close>, \<^verbatim>\<open>DoAbort\<close> and \<^verbatim>\<open>DoPrepareChild\<close> (with its callback).\<close>

datatype Waiter =
  UserWaiter nat
  | DoCommitWaiter
  | DoAbortWaiter
  | DoPrepareChildWaiter nat

datatype Handle = heartbeat_handle | commit_handle | abort_handle

text \<open>The two requests: \<^verbatim>\<open>UpdateTransactionRequestPB\<close> (status tablet, transaction id,
  status, involved tablets) and \<^verbatim>\<open>AbortTransactionRequestPB\<close>.\<close>

datatype Rpc =
  UpdateTransaction TabletId TransactionId TransactionStatus "TabletId list"
  | AbortTransaction TabletId TransactionId

datatype Call =
  PickStatusTablet
  | LookupTabletById TabletId
  | RegisterAndStart Rpc Handle
  | Unregister Handle
  | UpdateClock HybridTime
  | Schedule TransactionStatus
  | WaiterCall nat Status
  | CommitCallbackCall nat Status
  | PrepareChildCallbackCall nat "Status + ChildTransactionDataPB"
  | LOG_DFATAL string
  | LOG_WARNING string

datatype failure =
  CheckFailed string
  | NullPointer
  | BadFunctionCall

subsection \<open>The coordinator's fields\<close>

text \<open>\<^verbatim>\<open>status_tablet_\<close> and \<^verbatim>\<open>status_tablet_holder_\<close> are pointers to the routing
  descriptor: \<open>None\<close> is the null pointer, \<open>Some t\<close> a descriptor whose
  \<^verbatim>\<open>tablet_id()\<close> is \<open>t\<close>. \<^verbatim>\<open>commit_callback_\<close> is an empty \<^verbatim>\<open>std::function\<close>
  (\<open>None\<close>) or the caller's callback, named by a number. \<^verbatim>\<open>tablets_\<close>, an
  unordered map, is an association list: \<^verbatim>\<open>find\<close> is \<open>map_of\<close>, an insertion
  appends, and an iteration (whose order C++ leaves open) goes in insertion order.\<close>

record Impl =
  metadata :: TransactionMetadata
  read_point :: ConsistentReadPoint
  requested_status_tablet :: bool
  status_tablet :: "TabletId option"
  status_tablet_holder :: "TabletId option"
  state :: TransactionState
  child :: bool
  ready :: bool
  commit_callback :: "nat option"
  error :: Status
  tablets :: TabletStates
  waiters :: "Waiter list"
  calls :: "Call list"

definition call :: "Call \<Rightarrow> Impl \<Rightarrow> Impl" where
  "call c s = s\<lparr>calls := calls s @ [c]\<rparr>"

subsection \<open>Construction\<close>

text \<open>\<^verbatim>\<open>CreateMetadata\<close>: the generated id and the random priority are arguments.\<close>

definition CreateMetadata ::
  "TransactionId \<Rightarrow> nat \<Rightarrow> IsolationLevel \<Rightarrow> HybridTime \<Rightarrow> TransactionMetadata" where
  "CreateMetadata new_id random_priority isolation_level read_time_arg =
     \<lparr>transaction_id = new_id, isolation = isolation_level, status_tablet_id = [],
      priority = random_priority, start_time = read_time_arg\<rparr>"

text \<open>\<^verbatim>\<open>Impl(manager, transaction, isolation)\<close>; \<open>now\<close> is the reading of the manager's
  clock.\<close>

definition Impl_new :: "HybridTime \<Rightarrow> TransactionId \<Rightarrow> nat \<Rightarrow> IsolationLevel \<Rightarrow> Impl" where
  "Impl_new now new_id random_priority isolation_level =
     (let rp = (if isolation_level = SNAPSHOT_ISOLATION
                then SetCurrentReadTime now ConsistentReadPoint_new
                else ConsistentReadPoint_new);
          md = (if isolation_level = SNAPSHOT_ISOLATION
                then CreateMetadata new_id random_priority isolation_level (GetReadTime rp)
                else CreateMetadata new_id random_priority isolation_level now)
      in \<lparr>metadata = md, read_point = rp, requested_status_tablet = False,
          status_tablet = None, status_tablet_holder = None, state = kRunning,
          child = False, ready = False, commit_callback = None, error = OK,
          tablets = [], waiters = [], calls = []\<rparr>)"

text \<open>\<^verbatim>\<open>Impl(manager, transaction, ChildTransactionData data)\<close>.\<close>

definition Impl_child ::
  "TransactionMetadata \<Rightarrow> HybridTime \<Rightarrow> (TabletId \<rightharpoonup> HybridTime) \<Rightarrow> Impl" where
  "Impl_child data_md data_rt data_limits =
     \<lparr>metadata = data_md,
      read_point = SetReadTime data_rt data_limits ConsistentReadPoint_new,
      requested_status_tablet = False,
      status_tablet = None, status_tablet_holder = None, state = kRunning,
      child = True, ready = True, commit_callback = None, error = OK,
      tablets = [], waiters = [], calls = []\<rparr>"

subsection \<open>Status-tablet resolution and error latching\<close>

text \<open>\<^verbatim>\<open>RequestStatusTablet\<close>: the compare-exchange on
  \<^verbatim>\<open>requested_status_tablet_\<close> lets the first caller through, who asks the manager to
  pick a status tablet.\<close>

definition RequestStatusTablet :: "Impl \<Rightarrow> Impl" where
  "RequestStatusTablet s =
     (if requested_status_tablet s then s
      else call PickStatusTablet (s\<lparr>requested_status_tablet := True\<rparr>))"

text \<open>\<^verbatim>\<open>SetError\<close>: the first error is kept and the state stored as aborted.\<close>

definition SetError :: "Status \<Rightarrow> Impl \<Rightarrow> Impl" where
  "SetError status s =
     (if ok (error s) then s\<lparr>error := status, state := kAborted\<rparr> else s)"

text \<open>\<^verbatim>\<open>CheckRunning\<close>.\<close>

definition CheckRunning :: "Impl \<Rightarrow> Status" where
  "CheckRunning s =
     (if state s \<noteq> kRunning
      then (if ok (error s) then STATUS kIllegalState ''Transaction already completed''
            else error s)
      else OK)"

subsection \<open>Prepare and Flushed\<close>

text \<open>The loop of \<^verbatim>\<open>Prepare\<close> over the operations, with the table and the local
  \<^verbatim>\<open>has_tablets_without_parameters\<close> as accumulators.\<close>

fun Prepare_ops :: "InFlightOp list \<Rightarrow> TabletStates \<Rightarrow> bool \<Rightarrow> TabletStates \<times> bool" where
  "Prepare_ops [] tbl has_tablets_without_parameters = (tbl, has_tablets_without_parameters)"
| "Prepare_ops (x # xs) tbl has_tablets_without_parameters =
     (case map_of tbl (tablet x) of
        None \<Rightarrow> Prepare_ops xs (tbl @ [(tablet x, \<lparr>has_parameters = False\<rparr>)]) True
      | Some st \<Rightarrow>
          Prepare_ops xs tbl
            (if \<not> has_tablets_without_parameters then \<not> has_parameters st
             else has_tablets_without_parameters))"

text \<open>\<^verbatim>\<open>Prepare(ops, waiter, metadata)\<close> returns the boolean, the contents of the
  caller's metadata slot afterwards (\<open>slot\<close> before the call) and the new state.\<close>

definition Prepare ::
  "InFlightOp list \<Rightarrow> Waiter \<Rightarrow> TransactionMetadata \<Rightarrow> Impl
     \<Rightarrow> bool \<times> TransactionMetadata \<times> Impl" where
  "Prepare ops waiter slot s =
     (if \<not> ready s
      then (False, slot, RequestStatusTablet (s\<lparr>waiters := waiters s @ [waiter]\<rparr>))
      else (case Prepare_ops ops (tablets s) False of
              (tbl, has_tablets_without_parameters) \<Rightarrow>
                (True,
                 if has_tablets_without_parameters then metadata s
                 else slot\<lparr>transaction_id := transaction_id (metadata s)\<rparr>,
                 s\<lparr>tablets := tbl\<rparr>)))"

text \<open>The loop of \<^verbatim>\<open>Flushed\<close>. The outer iterator \<open>it\<close> (\<open>None\<close> is
  \<^verbatim>\<open>tablets_.end()\<close>, \<open>Some k\<close> points at the entry of key \<open>k\<close>) is never assigned:
  the \<^verbatim>\<open>auto it\<close> inside the block declares a second variable. So every succeeded
  operation looks its tablet up, and the \<^verbatim>\<open>CHECK\<close> fails when it is absent.\<close>

fun Flushed_ops :: "TabletId option \<Rightarrow> InFlightOp list \<Rightarrow> TabletStates \<Rightarrow> failure + TabletStates" where
  "Flushed_ops it [] tbl = Inr tbl"
| "Flushed_ops it (x # xs) tbl =
     (if yb_op_succeeded x
      then (if it = None \<or> it \<noteq> Some (tablet x)
            then (case map_of tbl (tablet x) of
                    None \<Rightarrow> Inl (CheckFailed ''it != tablets_.end()'')
                  | Some st \<Rightarrow>
                      Flushed_ops it xs
                        (AList.map_entry (tablet x) (\<lambda>e. e\<lparr>has_parameters := True\<rparr>) tbl))
            else Flushed_ops it xs tbl)
      else Flushed_ops it xs tbl)"

definition Flushed :: "InFlightOp list \<Rightarrow> Status \<Rightarrow> Impl \<Rightarrow> failure + Impl" where
  "Flushed ops status s =
     (if ok status
      then (case Flushed_ops None ops (tablets s) of
              Inl f \<Rightarrow> Inl f
            | Inr tbl \<Rightarrow> Inr (s\<lparr>tablets := tbl\<rparr>))
      else if IsTryAgain status then Inr (SetError status s)
      else Inr s)"

subsection \<open>Commit and Abort\<close>

text \<open>\<^verbatim>\<open>commit_callback_(status)\<close>: calling an empty \<^verbatim>\<open>std::function\<close> throws.\<close>

definition invoke_commit_callback :: "Status \<Rightarrow> Impl \<Rightarrow> failure + Impl" where
  "invoke_commit_callback status s =
     (case commit_callback s of
        None \<Rightarrow> Inl BadFunctionCall
      | Some cb \<Rightarrow> Inr (call (CommitCallbackCall cb status) s))"

definition DoAbort :: "Status \<Rightarrow> Impl \<Rightarrow> failure + Impl" where
  "DoAbort status s =
     (if \<not> ok status then Inr (call (LOG_WARNING ''Failed to abort transaction'') s)
      else (case status_tablet s of
              None \<Rightarrow> Inl NullPointer
            | Some t \<Rightarrow>
                Inr (call (RegisterAndStart
                             (AbortTransaction t (transaction_id (metadata s))) abort_handle) s)))"

definition DoCommit :: "Status \<Rightarrow> Impl \<Rightarrow> failure + Impl" where
  "DoCommit status s =
     (if \<not> ok status then invoke_commit_callback status s
      else if tablets s = []
      then (case DoAbort OK s of
              Inl f \<Rightarrow> Inl f
            | Inr s1 \<Rightarrow> invoke_commit_callback OK s1)
      else (case status_tablet s of
              None \<Rightarrow> Inl NullPointer
            | Some t \<Rightarrow>
                Inr (call (RegisterAndStart
                             (UpdateTransaction t (transaction_id (metadata s)) COMMITTED
                                (map fst (tablets s)))
                             commit_handle) s)))"

definition Commit :: "nat \<Rightarrow> Impl \<Rightarrow> failure + Impl" where
  "Commit callback s =
     (if \<not> ok (CheckRunning s) then Inr (call (CommitCallbackCall callback (CheckRunning s)) s)
      else if child s
      then Inr (call (CommitCallbackCall callback
                        (STATUS kIllegalState ''Commit of child transaction is not allowed'')) s)
      else if IsRestartRequired (read_point s)
      then Inr (call (CommitCallbackCall callback
                        (STATUS kIllegalState
                           ''Commit of transaction that requires restart is not allowed'')) s)
      else if \<not> ready s
      then Inr (RequestStatusTablet
                  (s\<lparr>state := kCommitted, commit_callback := Some callback,
                     waiters := waiters s @ [DoCommitWaiter]\<rparr>))
      else DoCommit OK (s\<lparr>state := kCommitted, commit_callback := Some callback\<rparr>))"

definition Abort :: "Impl \<Rightarrow> failure + Impl" where
  "Abort s =
     (if state s \<noteq> kRunning
      then Inr (if state s \<noteq> kAborted
                then call (LOG_DFATAL ''Abort of committed transaction'') s else s)
      else if child s then Inr (call (LOG_DFATAL ''Abort of child transaction'') s)
      else if \<not> ready s
      then Inr (RequestStatusTablet
                  (s\<lparr>state := kAborted, waiters := waiters s @ [DoAbortWaiter]\<rparr>))
      else DoAbort OK (s\<lparr>state := kAborted\<rparr>))"

text \<open>\<^verbatim>\<open>SetupRestart(other)\<close>, called on the transaction that is restarted, with the
  fresh sibling \<open>other\<close>; the result is the pair of both. \<open>moved_from\<close> is the value
  \<^verbatim>\<open>std::move\<close> leaves in \<^verbatim>\<open>read_point_\<close>, which C++ does not specify.\<close>

definition SetupRestart ::
  "ConsistentReadPoint \<Rightarrow> HybridTime \<Rightarrow> Impl \<Rightarrow> Impl \<Rightarrow> failure + Impl \<times> Impl" where
  "SetupRestart moved_from restart_time other s =
     (if state s \<noteq> kRunning
      then Inr (call (LOG_DFATAL ''Restart of completed transaction'') s, other)
      else (case DoAbort OK (s\<lparr>read_point := moved_from, state := kAborted\<rparr>) of
              Inl f \<Rightarrow> Inl f
            | Inr s1 \<Rightarrow>
                Inr (s1, other\<lparr>read_point := Restart restart_time (read_point s)\<rparr>)))"

subsection \<open>Child transactions\<close>

definition DoPrepareChild :: "Status \<Rightarrow> nat \<Rightarrow> Impl \<Rightarrow> Impl" where
  "DoPrepareChild status callback s =
     (if \<not> ok status then call (PrepareChildCallbackCall callback (Inl status)) s
      else call (PrepareChildCallbackCall callback
                   (Inr (PrepareChildTransactionData (read_point s)
                           \<lparr>data_metadata = metadata s, data_read_time = kInvalid,
                            data_local_limits = Map.empty\<rparr>))) s)"

definition PrepareChild :: "nat \<Rightarrow> Impl \<Rightarrow> Impl" where
  "PrepareChild callback s =
     (if \<not> ok (CheckRunning s)
      then call (PrepareChildCallbackCall callback (Inl (CheckRunning s))) s
      else if IsRestartRequired (read_point s)
      then call (PrepareChildCallbackCall callback
                   (Inl (STATUS kIllegalState ''Restart required''))) s
      else if \<not> ready s
      then RequestStatusTablet (s\<lparr>waiters := waiters s @ [DoPrepareChildWaiter callback]\<rparr>)
      else DoPrepareChild OK callback s)"

text \<open>\<^verbatim>\<open>TabletState::ToPB\<close> and \<^verbatim>\<open>TabletState::MergeFromPB\<close>.\<close>

definition ToPB :: "TabletId \<times> TabletState \<Rightarrow> TransactionInvolvedTabletPB" where
  "ToPB e = \<lparr>pb_tablet_id = fst e, pb_has_parameters = has_parameters (snd e)\<rparr>"

definition MergeFromPB :: "TransactionInvolvedTabletPB \<Rightarrow> TabletState \<Rightarrow> TabletState" where
  "MergeFromPB source st =
     st\<lparr>has_parameters := (has_parameters st \<or> pb_has_parameters source)\<rparr>"

definition FinishChild :: "Impl \<Rightarrow> (Status + ChildTransactionResultPB) \<times> Impl" where
  "FinishChild s =
     (if \<not> ok (CheckRunning s) then (Inl (CheckRunning s), s)
      else if \<not> child s
      then (Inl (STATUS kIllegalState ''Finish child of non child transaction''), s)
      else (Inr (FinishChildTransactionResult (read_point s)
                   \<lparr>result_tablets = map ToPB (tablets s),
                    result_local_limits = Map.empty, result_restart_required = False\<rparr>),
            s\<lparr>state := kCommitted\<rparr>))"

text \<open>\<^verbatim>\<open>tablets_[id].MergeFromPB(tablet)\<close>: \<^verbatim>\<open>operator[]\<close> inserts a default entry
  for an absent key, then the entry is merged.\<close>

definition merge_tablet :: "TransactionInvolvedTabletPB \<Rightarrow> TabletStates \<Rightarrow> TabletStates" where
  "merge_tablet source tbl =
     AList.map_entry (pb_tablet_id source) (MergeFromPB source)
       (case map_of tbl (pb_tablet_id source) of
          None \<Rightarrow> tbl @ [(pb_tablet_id source, \<lparr>has_parameters = False\<rparr>)]
        | Some st \<Rightarrow> tbl)"

definition ApplyChildResult :: "ChildTransactionResultPB \<Rightarrow> Impl \<Rightarrow> Status \<times> Impl" where
  "ApplyChildResult result s =
     (if \<not> ok (CheckRunning s) then (CheckRunning s, s)
      else if child s
      then (STATUS kIllegalState ''Apply child result of child transaction'', s)
      else (OK, s\<lparr>tablets := fold merge_tablet (result_tablets result) (tablets s),
                  read_point := ApplyChildTransactionResult result (read_point s)\<rparr>))"

subsection \<open>Callbacks of the resolution and of the RPCs\<close>

text \<open>\<^verbatim>\<open>waiter(status)\<close> for each kind of waiter, and the loop that notifies a vector of
  waiters front to back.\<close>

definition invoke_waiter :: "Waiter \<Rightarrow> Status \<Rightarrow> Impl \<Rightarrow> failure + Impl" where
  "invoke_waiter w status s =
     (case w of
        UserWaiter n \<Rightarrow> Inr (call (WaiterCall n status) s)
      | DoCommitWaiter \<Rightarrow> DoCommit status s
      | DoAbortWaiter \<Rightarrow> DoAbort status s
      | DoPrepareChildWaiter cb \<Rightarrow> Inr (DoPrepareChild status cb s))"

fun invoke_waiters :: "Waiter list \<Rightarrow> Status \<Rightarrow> Impl \<Rightarrow> failure + Impl" where
  "invoke_waiters [] status s = Inr s"
| "invoke_waiters (w # ws) status s =
     (case invoke_waiter w status s of
        Inl f \<Rightarrow> Inl f
      | Inr s1 \<Rightarrow> invoke_waiters ws status s1)"

definition StatusTabletPicked :: "TabletId Result \<Rightarrow> Impl \<Rightarrow> Impl" where
  "StatusTabletPicked picked s =
     (case picked of
        Value t \<Rightarrow> call (LookupTabletById t) s
      | Failed c m \<Rightarrow> SetError (status_of picked) s)"

text \<open>The branch \<^verbatim>\<open>status.ok()\<close> of \<^verbatim>\<open>HeartbeatDone\<close>, with the two statements before
  the branch. \<^verbatim>\<open>SendHeartbeat\<close> and \<^verbatim>\<open>HeartbeatDone\<close> call each other; the call from
  \<^verbatim>\<open>SendHeartbeat\<close> passes \<^verbatim>\<open>Status::OK()\<close>, so it only reaches this branch, which
  calls nothing back.\<close>

definition HeartbeatDone_ok :: "HybridTime \<Rightarrow> TransactionStatus \<Rightarrow> Impl \<Rightarrow> failure + Impl" where
  "HeartbeatDone_ok propagated_hybrid_time transaction_status s =
     (let s1 = call (Unregister heartbeat_handle) (call (UpdateClock propagated_hybrid_time) s)
      in if transaction_status = CREATED
         then (case invoke_waiters (waiters s1) OK (s1\<lparr>ready := True, waiters := []\<rparr>) of
                 Inl f \<Rightarrow> Inl f
               | Inr s2 \<Rightarrow> Inr (call (Schedule PENDING) s2))
         else Inr (call (Schedule PENDING) s1))"

text \<open>\<^verbatim>\<open>SendHeartbeat(status, weak_transaction)\<close>: \<open>alive\<close> says whether the weak
  pointer still locks, \<open>disable_heartbeat\<close> is the value read from
  \<^verbatim>\<open>FLAGS_transaction_disable_heartbeat_in_tests\<close>.\<close>

definition SendHeartbeat :: "bool \<Rightarrow> TransactionStatus \<Rightarrow> bool \<Rightarrow> Impl \<Rightarrow> failure + Impl" where
  "SendHeartbeat disable_heartbeat status alive s =
     (if \<not> alive \<or> state s \<noteq> kRunning then Inr s
      else if status \<noteq> CREATED \<and> disable_heartbeat then HeartbeatDone_ok kInvalid status s
      else (case status_tablet s of
              None \<Rightarrow> Inl NullPointer
            | Some t \<Rightarrow>
                Inr (call (RegisterAndStart
                             (UpdateTransaction t (transaction_id (metadata s)) status [])
                             heartbeat_handle) s)))"

definition HeartbeatDone ::
  "bool \<Rightarrow> Status \<Rightarrow> HybridTime \<Rightarrow> TransactionStatus \<Rightarrow> Impl \<Rightarrow> failure + Impl" where
  "HeartbeatDone disable_heartbeat status propagated_hybrid_time transaction_status s =
     (if ok status then HeartbeatDone_ok propagated_hybrid_time transaction_status s
      else (let s1 = call (LOG_WARNING ''Send heartbeat failed'')
                       (call (Unregister heartbeat_handle)
                          (call (UpdateClock propagated_hybrid_time) s))
            in if IsExpired status then Inr (SetError status s1)
               else SendHeartbeat disable_heartbeat transaction_status True s1))"

text \<open>\<^verbatim>\<open>LookupTabletDone(transaction, status)\<close>: \<open>holder\<close> is what the lookup left in
  \<^verbatim>\<open>status_tablet_holder_\<close>. The status is only logged. The heartbeat it sends is
  \<^verbatim>\<open>CREATED\<close>, for which \<^verbatim>\<open>SendHeartbeat\<close> does not read the test flag.\<close>

definition LookupTabletDone :: "Status \<Rightarrow> TabletId option \<Rightarrow> Impl \<Rightarrow> failure + Impl" where
  "LookupTabletDone status holder s =
     (case holder of
        None \<Rightarrow> Inl NullPointer
      | Some t \<Rightarrow>
          SendHeartbeat False CREATED True
            (s\<lparr>status_tablet := Some t, status_tablet_holder := None,
               metadata := (metadata s)\<lparr>status_tablet_id := t\<rparr>\<rparr>))"

definition CommitDone :: "Status \<Rightarrow> HybridTime \<Rightarrow> Impl \<Rightarrow> failure + Impl" where
  "CommitDone status propagated_hybrid_time s =
     invoke_commit_callback status
       (call (Unregister commit_handle) (call (UpdateClock propagated_hybrid_time) s))"

text \<open>\<^verbatim>\<open>AbortDone\<close>: the response carries an optional propagated hybrid time.\<close>

definition AbortDone :: "Status \<Rightarrow> HybridTime option \<Rightarrow> Impl \<Rightarrow> Impl" where
  "AbortDone status response s =
     call (Unregister abort_handle)
       (case response of
          None \<Rightarrow> s
        | Some ht \<Rightarrow> call (UpdateClock ht) s)"

subsection \<open>Runs of the coordinator\<close>

text \<open>What can happen to a coordinator: a call of a public member function, or the delivery
  of a callback by the manager, the tablet lookup, the RPC registry or the scheduler.\<close>

datatype Event =
  EvPrepare "InFlightOp list" nat TransactionMetadata
  | EvFlushed "InFlightOp list" Status
  | EvCommit nat
  | EvAbort
  | EvSetupRestart ConsistentReadPoint HybridTime Impl
  | EvPrepareChild nat
  | EvFinishChild
  | EvApplyChildResult ChildTransactionResultPB
  | EvStatusTabletPicked "TabletId Result"
  | EvLookupTabletDone Status "TabletId option"
  | EvSendHeartbeat bool TransactionStatus bool
  | EvHeartbeatDone bool Status HybridTime TransactionStatus
  | EvCommitDone Status HybridTime
  | EvAbortDone Status "HybridTime option"

fun step :: "Event \<Rightarrow> Impl \<Rightarrow> failure + Impl" where
  "step (EvPrepare ops n slot) s = Inr (snd (snd (Prepare ops (UserWaiter n) slot s)))"
| "step (EvFlushed ops status) s = Flushed ops status s"
| "step (EvCommit callback) s = Commit callback s"
| "step EvAbort s = Abort s"
| "step (EvSetupRestart moved_from restart_time other) s =
     map_sum id fst (SetupRestart moved_from restart_time other s)"
| "step (EvPrepareChild callback) s = Inr (PrepareChild callback s)"
| "step EvFinishChild s = Inr (snd (FinishChild s))"
| "step (EvApplyChildResult result) s = Inr (snd (ApplyChildResult result s))"
| "step (EvStatusTabletPicked picked) s = Inr (StatusTabletPicked picked s)"
| "step (EvLookupTabletDone status holder) s = LookupTabletDone status holder s"
| "step (EvSendHeartbeat disable_heartbeat status alive) s =
     SendHeartbeat disable_heartbeat status alive s"
| "step (EvHeartbeatDone disable_heartbeat status ht transaction_status) s =
     HeartbeatDone disable_heartbeat status ht transaction_status s"
| "step (EvCommitDone status ht) s = CommitDone status ht s"
| "step (EvAbortDone status response) s = Inr (AbortDone status response s)"

fun run :: "Event list \<Rightarrow> Impl \<Rightarrow> failure + Impl" where
  "run [] s = Inr s"
| "run (e # es) s =
     (case step e s of
        Inl f \<Rightarrow> Inl f
      | Inr s1 \<Rightarrow> run es s1)"

subsection \<open>Invariants and observations\<close>

text \<open>What decides the fate of the transaction: the state, the latched error and the
  participant table. Most of the private member functions leave all three alone.\<close>

definition fate :: "Impl \<Rightarrow> TransactionState \<times> Status \<times> TabletStates" where
  "fate s = (state s, error s, tablets s)"

text \<open>An error is only ever recorded together with the store of \<^verbatim>\<open>kAborted\<close>.\<close>

definition error_latched :: "Impl \<Rightarrow> bool" where
  "error_latched s = (ok (error s) \<or> state s = kAborted)"

text \<open>How one call can move the coordinator: a recorded error stays; a state other than
  running stays, except that a committed transaction becomes aborted when the first error
  is recorded; \<open>error_latched\<close> is kept; no key leaves the participant table.\<close>

definition moves :: "Impl \<Rightarrow> Impl \<Rightarrow> bool" where
  "moves s s' =
     ((ok (error s) \<or> error s' = error s) \<and>
      (state s = kRunning \<or> state s' = state s \<or>
       (state s = kCommitted \<and> state s' = kAborted \<and> ok (error s) \<and> \<not> ok (error s'))) \<and>
      (error_latched s \<longrightarrow> error_latched s') \<and>
      fst ` set (tablets s) \<subseteq> fst ` set (tablets s'))"

text \<open>The tablets a run has admitted: those of the operations of every \<^verbatim>\<open>Prepare\<close>
  call of the run that returned true.\<close>

fun admits :: "Event \<Rightarrow> Impl \<Rightarrow> TabletId set" where
  "admits (EvPrepare ops n slot) s =
     (if fst (Prepare ops (UserWaiter n) slot s) then tablet ` set ops else {})"
| "admits e s = {}"

fun admitted :: "Event list \<Rightarrow> Impl \<Rightarrow> TabletId set" where
  "admitted [] s = {}"
| "admitted (e # es) s =
     (case step e s of
        Inl f \<Rightarrow> {}
      | Inr s1 \<Rightarrow> admits e s \<union> admitted es s1)"

text \<open>A table has absorbed a child's record when merging the record again changes
  nothing.\<close>

definition absorbed :: "TransactionInvolvedTabletPB \<Rightarrow> TabletStates \<Rightarrow> bool" where
  "absorbed source tbl =
     (case map_of tbl (pb_tablet_id source) of
        None \<Rightarrow> False
      | Some st \<Rightarrow> has_parameters st \<or> \<not> pb_has_parameters source)"

text \<open>What a test observes of a run: the failure, or the state, the error, readiness, the
  queued waiters and the calls made on the collaborators.\<close>

definition observe ::
  "failure + Impl \<Rightarrow> failure + TransactionState \<times> Status \<times> bool \<times> Waiter list \<times> Call list" where
  "observe r = map_sum id (\<lambda>s. (state s, error s, ready s, waiters s, calls s)) r"

text \<open>The environment's side of the protocol. The RPC registry calls \<^verbatim>\<open>HeartbeatDone\<close>
  only for a heartbeat that \<^verbatim>\<open>SendHeartbeat\<close> registered (or \<^verbatim>\<open>SendHeartbeat\<close> calls it
  itself, which is inside \<open>step\<close>); every other event can come at any time. A run
  respects the protocol when each of its events is deliverable in the state it meets.\<close>

fun is_heartbeat :: "Call \<Rightarrow> bool" where
  "is_heartbeat (RegisterAndStart rpc h) = (h = heartbeat_handle)"
| "is_heartbeat c = False"

definition heartbeat_sent :: "Impl \<Rightarrow> bool" where
  "heartbeat_sent s = list_ex is_heartbeat (calls s)"

fun deliverable :: "Event \<Rightarrow> Impl \<Rightarrow> bool" where
  "deliverable (EvHeartbeatDone disable_heartbeat status ht transaction_status) s =
     heartbeat_sent s"
| "deliverable e s = True"

fun protocol :: "Event list \<Rightarrow> Impl \<Rightarrow> bool" where
  "protocol [] s = True"
| "protocol (e # es) s =
     (deliverable e s \<and>
      (case step e s of
         Inl f \<Rightarrow> True
       | Inr s1 \<Rightarrow> protocol es s1))"

text \<open>A heartbeat is only sent to a resolved status tablet, and only a child is ready
  without one.\<close>

definition resolved :: "Impl \<Rightarrow> bool" where
  "resolved s =
     ((heartbeat_sent s \<longrightarrow> status_tablet s \<noteq> None) \<and>
      (ready s \<longrightarrow> child s \<or> status_tablet s \<noteq> None))"

definition route :: "Impl \<Rightarrow> TabletId option \<times> bool \<times> bool \<times> bool" where
  "route s = (status_tablet s, child s, ready s, heartbeat_sent s)"

subsection \<open>Example runs\<close>

definition empty_slot :: TransactionMetadata where
  "empty_slot = \<lparr>transaction_id = [], isolation = NON_TRANSACTIONAL, status_tablet_id = [],
                  priority = 0, start_time = kInvalid\<rparr>"

definition example_txn :: Impl where
  "example_txn = Impl_new (HybridTime 100) ''txn'' 7 SNAPSHOT_ISOLATION"

text \<open>A first \<^verbatim>\<open>Prepare\<close> that is postponed, the status tablet picked and looked up, the
  \<^verbatim>\<open>CREATED\<close> heartbeat acknowledged.\<close>

definition example_startup :: "Event list" where
  "example_startup =
     [EvPrepare [] 1 empty_slot,
      EvStatusTabletPicked (Value ''status''),
      EvLookupTabletDone OK (Some ''status''),
      EvHeartbeatDone False OK (HybridTime 101) CREATED]"

definition example_ready :: Impl where
  "example_ready = projr (run example_startup example_txn)"

definition example_batch :: "InFlightOp list" where
  "example_batch =
     [\<lparr>tablet = ''A'', yb_op_succeeded = True\<rparr>, \<lparr>tablet = ''B'', yb_op_succeeded = False\<rparr>]"

definition example_prepared :: Impl where
  "example_prepared =
     projr (run (example_startup @ [EvPrepare example_batch 2 empty_slot]) example_txn)"

definition example_committed :: Impl where
  "example_committed = projr (run [EvCommit 1] example_txn)"

definition example_flushed :: Impl where
  "example_flushed = projr (Flushed example_batch OK example_prepared)"

section \<open>Lemmas\<close>

lemmas coordinator_defs =
  observe_def empty_slot_def example_txn_def example_startup_def example_ready_def
  example_batch_def example_prepared_def example_committed_def example_flushed_def
  Impl_new_def Impl_child_def CreateMetadata_def ConsistentReadPoint_new_def
  SetCurrentReadTime_def GetReadTime_def SetReadTime_def IsRestartRequired_def Restart_def
  PrepareChildTransactionData_def FinishChildTransactionResult_def
  ApplyChildTransactionResult_def call_def RequestStatusTablet_def SetError_def
  CheckRunning_def Prepare_def Flushed_def invoke_commit_callback_def DoAbort_def
  DoCommit_def Commit_def Abort_def SetupRestart_def DoPrepareChild_def PrepareChild_def
  ToPB_def MergeFromPB_def FinishChild_def merge_tablet_def ApplyChildResult_def
  invoke_waiter_def StatusTabletPicked_def HeartbeatDone_ok_def SendHeartbeat_def
  HeartbeatDone_def LookupTabletDone_def CommitDone_def AbortDone_def Let_def

subsection \<open>Calls that leave the fate alone\<close>

lemma call_fields [simp]:
  "state (call c s) = state s" "error (call c s) = error s" "tablets (call c s) = tablets s"
  "ready (call c s) = ready s" "waiters (call c s) = waiters s" "child (call c s) = child s"
  "status_tablet (call c s) = status_tablet s" "read_point (call c s) = read_point s"
  "metadata (call c s) = metadata s" "commit_callback (call c s) = commit_callback s"
  "requested_status_tablet (call c s) = requested_status_tablet s"
  "calls (call c s) = calls s @ [c]"
  by (simp_all add: call_def)

lemma RequestStatusTablet_fields [simp]:
  "state (RequestStatusTablet s) = state s" "error (RequestStatusTablet s) = error s"
  "tablets (RequestStatusTablet s) = tablets s" "ready (RequestStatusTablet s) = ready s"
  "waiters (RequestStatusTablet s) = waiters s" "child (RequestStatusTablet s) = child s"
  "status_tablet (RequestStatusTablet s) = status_tablet s"
  "read_point (RequestStatusTablet s) = read_point s"
  "metadata (RequestStatusTablet s) = metadata s"
  "commit_callback (RequestStatusTablet s) = commit_callback s"
  "requested_status_tablet (RequestStatusTablet s)"
  by (simp_all add: RequestStatusTablet_def)

lemma fate_call: "fate (call c s) = fate s"
  by (simp add: fate_def call_def)

lemma fate_RequestStatusTablet: "fate (RequestStatusTablet s) = fate s"
  by (simp add: RequestStatusTablet_def fate_call) (simp add: fate_def)

lemma fate_invoke_commit_callback: "invoke_commit_callback st s = Inr s' \<Longrightarrow> fate s' = fate s"
  by (auto simp: invoke_commit_callback_def fate_call split: option.splits)

lemma fate_DoAbort: "DoAbort st s = Inr s' \<Longrightarrow> fate s' = fate s"
  by (auto simp: DoAbort_def fate_call split: option.splits if_splits)

lemma fate_DoCommit: "DoCommit st s = Inr s' \<Longrightarrow> fate s' = fate s"
  by (auto simp: DoCommit_def fate_call split: option.splits if_splits sum.splits
      dest!: fate_DoAbort fate_invoke_commit_callback)

lemma fate_DoPrepareChild: "fate (DoPrepareChild st cb s) = fate s"
  by (simp add: DoPrepareChild_def fate_call)

lemma fate_invoke_waiter: "invoke_waiter w st s = Inr s' \<Longrightarrow> fate s' = fate s"
  by (auto simp: invoke_waiter_def fate_call fate_DoPrepareChild split: Waiter.splits
      dest!: fate_DoAbort fate_DoCommit)

lemma fate_invoke_waiters: "invoke_waiters ws st s = Inr s' \<Longrightarrow> fate s' = fate s"
proof (induction ws arbitrary: s)
  case Nil
  then show ?case by simp
next
  case (Cons w ws)
  then show ?case
    by (auto split: sum.splits dest!: fate_invoke_waiter)
qed

lemma fate_HeartbeatDone_ok: "HeartbeatDone_ok ht ts s = Inr s' \<Longrightarrow> fate s' = fate s"
  by (auto simp: HeartbeatDone_ok_def Let_def fate_call split: if_splits sum.splits
      dest!: fate_invoke_waiters) (simp add: fate_def call_def)

lemma fate_SendHeartbeat: "SendHeartbeat fl ts alive s = Inr s' \<Longrightarrow> fate s' = fate s"
  by (auto simp: SendHeartbeat_def fate_call split: if_splits option.splits
      dest!: fate_HeartbeatDone_ok)

lemma fate_PrepareChild: "fate (PrepareChild cb s) = fate s"
  by (simp add: PrepareChild_def fate_call fate_DoPrepareChild fate_RequestStatusTablet)
    (simp add: fate_def)

lemma fate_LookupTabletDone: "LookupTabletDone st h s = Inr s' \<Longrightarrow> fate s' = fate s"
  by (auto simp: LookupTabletDone_def split: option.splits dest!: fate_SendHeartbeat)
    (simp add: fate_def)

lemma fate_CommitDone: "CommitDone st ht s = Inr s' \<Longrightarrow> fate s' = fate s"
  by (auto simp: CommitDone_def fate_call dest!: fate_invoke_commit_callback)

lemma fate_AbortDone: "fate (AbortDone st r s) = fate s"
  by (simp add: AbortDone_def fate_call split: option.splits)

subsection \<open>The participant table under the loops\<close>

lemma Prepare_ops_keys: "fst ` set tbl \<subseteq> fst ` set (fst (Prepare_ops ops tbl f))"
proof (induction ops arbitrary: tbl f)
  case Nil
  then show ?case by simp
next
  case (Cons x xs)
  show ?case
  proof (cases "map_of tbl (tablet x)")
    case None
    have "fst ` set tbl \<subseteq> fst ` set (tbl @ [(tablet x, \<lparr>has_parameters = False\<rparr>)])" by auto
    also have "\<dots> \<subseteq> fst ` set (fst (Prepare_ops xs (tbl @ [(tablet x, \<lparr>has_parameters = False\<rparr>)]) True))"
      by (rule Cons.IH)
    finally show ?thesis using None by simp
  next
    case (Some st)
    then show ?thesis using Cons.IH by simp
  qed
qed

lemma Prepare_ops_flag:
  "snd (Prepare_ops ops tbl f) =
     (f \<or> (\<exists>x\<in>set ops. case map_of tbl (tablet x) of None \<Rightarrow> True
                                | Some st \<Rightarrow> \<not> has_parameters st))"
proof (induction ops arbitrary: tbl f)
  case Nil
  then show ?case by simp
next
  case (Cons x xs)
  show ?case
  proof (cases "map_of tbl (tablet x)")
    case None
    then show ?thesis by (simp add: Cons.IH)
  next
    case (Some st)
    then show ?thesis by (auto simp: Cons.IH)
  qed
qed

lemma Prepare_ops_covers: "tablet ` set ops \<subseteq> fst ` set (fst (Prepare_ops ops tbl f))"
proof (induction ops arbitrary: tbl f)
  case Nil
  then show ?case by simp
next
  case (Cons x xs)
  show ?case
  proof (cases "map_of tbl (tablet x)")
    case None
    let ?tbl = "tbl @ [(tablet x, \<lparr>has_parameters = False\<rparr>)]"
    have "tablet x \<in> fst ` set ?tbl" by force
    then have "tablet x \<in> fst ` set (fst (Prepare_ops xs ?tbl True))"
      using Prepare_ops_keys [of ?tbl xs True] by blast
    moreover have "tablet ` set xs \<subseteq> fst ` set (fst (Prepare_ops xs ?tbl True))"
      by (rule Cons.IH)
    ultimately show ?thesis using None by simp
  next
    case (Some st)
    then have "tablet x \<in> fst ` set tbl" by (force dest: map_of_SomeD)
    then have "tablet x \<in> fst ` set (fst (Prepare_ops xs tbl (if \<not> f then \<not> has_parameters st else f)))"
      using Prepare_ops_keys by blast
    moreover have "tablet ` set xs \<subseteq> fst ` set (fst (Prepare_ops xs tbl (if \<not> f then \<not> has_parameters st else f)))"
      by (rule Cons.IH)
    ultimately show ?thesis using Some by simp
  qed
qed

lemma TabletState_informed: "(e::TabletState)\<lparr>has_parameters := True\<rparr> = \<lparr>has_parameters = True\<rparr>"
  by (cases e) simp

lemma Flushed_ops_keys: "Flushed_ops it ops tbl = Inr tbl' \<Longrightarrow> fst ` set tbl' = fst ` set tbl"
proof (induction ops arbitrary: tbl)
  case Nil
  then show ?case by simp
next
  case (Cons x xs)
  then show ?case
    by (auto split: if_splits option.splits simp: dom_map_entry)
qed

lemma Flushed_ops_result:
  "Flushed_ops None ops tbl = Inr tbl' \<Longrightarrow>
   map_of tbl' t =
     (if \<exists>x\<in>set ops. yb_op_succeeded x \<and> tablet x = t then Some \<lparr>has_parameters = True\<rparr>
      else map_of tbl t)"
proof (induction ops arbitrary: tbl)
  case Nil
  then show ?case by simp
next
  case (Cons x xs)
  show ?case
  proof (cases "yb_op_succeeded x")
    case False
    with Cons show ?thesis by simp
  next
    case True
    with Cons.prems obtain st where st: "map_of tbl (tablet x) = Some st"
      and r: "Flushed_ops None xs (AList.map_entry (tablet x) (\<lambda>e. e\<lparr>has_parameters := True\<rparr>) tbl) = Inr tbl'"
      by (auto split: option.splits)
    from Cons.IH [OF r] st True show ?thesis
      by (auto simp: map_of_map_entry TabletState_informed)
  qed
qed

lemma Flushed_ops_returns:
  "\<forall>x\<in>set ops. yb_op_succeeded x \<longrightarrow> tablet x \<in> fst ` set tbl \<Longrightarrow>
   \<exists>tbl'. Flushed_ops None ops tbl = Inr tbl'"
proof (induction ops arbitrary: tbl)
  case Nil
  then show ?case by simp
next
  case (Cons x xs)
  show ?case
  proof (cases "yb_op_succeeded x")
    case False
    with Cons show ?thesis by simp
  next
    case True
    with Cons.prems have "tablet x \<in> fst ` set tbl" by simp
    then obtain st where st: "map_of tbl (tablet x) = Some st"
      by (metis domD dom_map_of_conv_image_fst)
    let ?tbl = "AList.map_entry (tablet x) (\<lambda>e. e\<lparr>has_parameters := True\<rparr>) tbl"
    have "\<forall>y\<in>set xs. yb_op_succeeded y \<longrightarrow> tablet y \<in> fst ` set ?tbl"
      using Cons.prems by (simp add: dom_map_entry)
    from Cons.IH [OF this] True st show ?thesis by simp
  qed
qed

lemma merge_tablet_keys: "fst ` set tbl \<subseteq> fst ` set (merge_tablet t tbl)"
  by (auto simp: merge_tablet_def dom_map_entry split: option.splits)

lemma fold_merge_tablet_keys: "fst ` set tbl \<subseteq> fst ` set (fold merge_tablet ts tbl)"
proof (induction ts arbitrary: tbl)
  case Nil
  then show ?case by simp
next
  case (Cons t ts)
  have "fst ` set tbl \<subseteq> fst ` set (merge_tablet t tbl)" by (rule merge_tablet_keys)
  also have "\<dots> \<subseteq> fst ` set (fold merge_tablet ts (merge_tablet t tbl))" by (rule Cons.IH)
  finally show ?case by simp
qed

lemma map_entry_fixed: "map_of al k = Some v \<Longrightarrow> f v = v \<Longrightarrow> AList.map_entry k f al = al"
  by (induction al) (auto split: if_splits)

lemma MergeFromPB_fixed:
  "has_parameters st \<or> \<not> pb_has_parameters source \<Longrightarrow> MergeFromPB source st = st"
  by (cases st) (auto simp: MergeFromPB_def)

lemma merge_tablet_absorbed: "absorbed source tbl \<Longrightarrow> merge_tablet source tbl = tbl"
  by (auto simp: absorbed_def merge_tablet_def map_entry_fixed MergeFromPB_fixed
      split: option.splits)

lemma map_of_merge_tablet:
  "map_of (merge_tablet source tbl) k =
     (if k = pb_tablet_id source
      then Some (MergeFromPB source
                   (case map_of tbl k of None \<Rightarrow> \<lparr>has_parameters = False\<rparr> | Some st \<Rightarrow> st))
      else map_of tbl k)"
  by (auto simp: merge_tablet_def map_of_map_entry map_add_def split: option.splits)

lemma absorbed_merge_tablet_self: "absorbed source (merge_tablet source tbl)"
  by (auto simp: absorbed_def map_of_merge_tablet MergeFromPB_def split: option.splits)

lemma absorbed_merge_tablet: "absorbed t tbl \<Longrightarrow> absorbed t (merge_tablet u tbl)"
  by (auto simp: absorbed_def map_of_merge_tablet MergeFromPB_def split: option.splits)

lemma absorbed_fold: "absorbed t tbl \<Longrightarrow> absorbed t (fold merge_tablet ts tbl)"
  by (induction ts arbitrary: tbl) (simp_all add: absorbed_merge_tablet)

lemma fold_merge_tablet_absorbs: "\<forall>t\<in>set ts. absorbed t (fold merge_tablet ts tbl)"
proof (induction ts arbitrary: tbl)
  case Nil
  then show ?case by simp
next
  case (Cons t ts)
  have "absorbed t (fold merge_tablet ts (merge_tablet t tbl))"
    by (rule absorbed_fold) (rule absorbed_merge_tablet_self)
  with Cons.IH [of "merge_tablet t tbl"] show ?case by simp
qed

lemma fold_merge_tablet_fixed: "\<forall>t\<in>set ts. absorbed t tbl \<Longrightarrow> fold merge_tablet ts tbl = tbl"
  by (induction ts) (simp_all add: merge_tablet_absorbed)

lemma fold_merge_tablet_idem:
  "fold merge_tablet ts (fold merge_tablet ts tbl) = fold merge_tablet ts tbl"
  by (rule fold_merge_tablet_fixed) (rule fold_merge_tablet_absorbs)

lemma ApplyChildTransactionResult_idem:
  "ApplyChildTransactionResult r (ApplyChildTransactionResult r rp) =
     ApplyChildTransactionResult r rp"
proof -
  have "(local_limits rp ++ result_local_limits r) ++ result_local_limits r =
          local_limits rp ++ result_local_limits r"
    by (rule ext) (simp add: map_add_def split: option.splits)
  then show ?thesis by (auto simp: ApplyChildTransactionResult_def)
qed

subsection \<open>Every call moves the coordinator forward\<close>

lemma moves_refl: "moves s s"
  by (simp add: moves_def)

lemma moves_trans:
  assumes "moves s s1" and "moves s1 s2"
  shows "moves s s2"
proof -
  have k: "fst ` set (tablets s) \<subseteq> fst ` set (tablets s2)"
    using assms unfolding moves_def by blast
  have l: "error_latched s \<longrightarrow> error_latched s2"
    using assms unfolding moves_def by blast
  have e: "ok (error s) \<or> error s2 = error s"
    using assms unfolding moves_def by auto
  have t: "state s = kRunning \<or> state s2 = state s \<or>
       (state s = kCommitted \<and> state s2 = kAborted \<and> ok (error s) \<and> \<not> ok (error s2))"
    using assms unfolding moves_def by (cases "state s"; cases "state s1"; auto)
  from k l e t show ?thesis unfolding moves_def by blast
qed

lemma moves_fate: "fate s' = fate s \<Longrightarrow> moves s s'"
  by (simp add: moves_def fate_def error_latched_def)

lemma not_ok_iff: "(\<not> ok st) = (\<exists>c m. st = STATUS c m)"
  by (cases st) auto

lemma CheckRunning_ok: "ok (CheckRunning s) = (state s = kRunning)"
  by (auto simp: CheckRunning_def not_ok_iff)

lemma moves_SetError: "\<not> ok st \<Longrightarrow> moves s (SetError st s)"
  by (cases "state s") (auto simp: moves_def SetError_def error_latched_def)

lemma moves_Prepare: "moves s (snd (snd (Prepare ops w slot s)))"
proof (cases "ready s")
  case False
  then show ?thesis by (simp add: Prepare_def moves_def error_latched_def)
next
  case True
  obtain tbl f where p: "Prepare_ops ops (tablets s) False = (tbl, f)" by force
  with Prepare_ops_keys [of "tablets s" ops False]
  have "fst ` set (tablets s) \<subseteq> fst ` set tbl" by simp
  with True p show ?thesis by (simp add: Prepare_def moves_def error_latched_def)
qed

lemma moves_Flushed:
  assumes "Flushed ops st s = Inr s'"
  shows "moves s s'"
proof (cases "ok st")
  case True
  with assms obtain tbl where "Flushed_ops None ops (tablets s) = Inr tbl" "s' = s\<lparr>tablets := tbl\<rparr>"
    by (auto simp: Flushed_def split: sum.splits)
  then show ?thesis using Flushed_ops_keys [of None ops "tablets s" tbl]
    by (simp add: moves_def error_latched_def)
next
  case False
  with assms show ?thesis
    by (auto simp: Flushed_def moves_refl moves_SetError split: if_splits)
qed

lemma moves_Commit: "Commit cb s = Inr s' \<Longrightarrow> moves s s'"
  by (auto simp: Commit_def CheckRunning_ok moves_def fate_def error_latched_def
      split: if_splits dest!: fate_DoCommit)

lemma moves_Abort: "Abort s = Inr s' \<Longrightarrow> moves s s'"
  by (auto simp: Abort_def moves_def fate_def error_latched_def
      split: if_splits dest!: fate_DoAbort)

lemma moves_SetupRestart: "SetupRestart mf rt other s = Inr (s', other') \<Longrightarrow> moves s s'"
  by (auto simp: SetupRestart_def moves_def fate_def error_latched_def
      split: if_splits sum.splits dest!: fate_DoAbort)

lemma moves_FinishChild: "moves s (snd (FinishChild s))"
  by (auto simp: FinishChild_def CheckRunning_ok moves_def error_latched_def)

lemma moves_ApplyChildResult: "moves s (snd (ApplyChildResult r s))"
  using fold_merge_tablet_keys [of "tablets s" "result_tablets r"]
  by (simp add: ApplyChildResult_def moves_def error_latched_def)

lemma moves_StatusTabletPicked: "moves s (StatusTabletPicked p s)"
  by (cases p) (simp_all add: StatusTabletPicked_def fate_call moves_fate moves_SetError)

lemma moves_HeartbeatDone:
  assumes h: "HeartbeatDone fl st ht ts s = Inr s'"
  shows "moves s s'"
proof (cases "ok st")
  case True
  with h have "HeartbeatDone_ok ht ts s = Inr s'" by (simp add: HeartbeatDone_def)
  then show ?thesis by (intro moves_fate fate_HeartbeatDone_ok)
next
  case False
  let ?s1 = "call (LOG_WARNING ''Send heartbeat failed'')
               (call (Unregister heartbeat_handle) (call (UpdateClock ht) s))"
  have f1: "fate ?s1 = fate s" by (simp add: fate_call)
  show ?thesis
  proof (cases "IsExpired st")
    case True
    with False h have "s' = SetError st ?s1" by (simp add: HeartbeatDone_def Let_def)
    then have "moves ?s1 s'" using False by (simp add: moves_SetError)
    with moves_fate [OF f1] show ?thesis by (rule moves_trans)
  next
    case nexp: False
    with False h have "SendHeartbeat fl ts True ?s1 = Inr s'" by (simp add: HeartbeatDone_def Let_def)
    then have "fate s' = fate ?s1" by (rule fate_SendHeartbeat)
    with f1 show ?thesis by (simp add: moves_fate)
  qed
qed

lemma step_moves:
  assumes "step e s = Inr s'"
  shows "moves s s'"
proof (cases e)
  case (EvPrepare ops n slot)
  with assms show ?thesis using moves_Prepare [of s ops "UserWaiter n" slot] by simp
next
  case (EvFlushed ops st)
  with assms show ?thesis by (simp add: moves_Flushed)
next
  case (EvCommit cb)
  with assms show ?thesis by (simp add: moves_Commit)
next
  case EvAbort
  with assms show ?thesis by (simp add: moves_Abort)
next
  case (EvSetupRestart mf rt other)
  with assms obtain other' where "SetupRestart mf rt other s = Inr (s', other')"
    by (cases "SetupRestart mf rt other s") auto
  then show ?thesis by (rule moves_SetupRestart)
next
  case (EvPrepareChild cb)
  with assms show ?thesis using fate_PrepareChild [of cb s] by (auto intro: moves_fate)
next
  case EvFinishChild
  with assms show ?thesis using moves_FinishChild [of s] by simp
next
  case (EvApplyChildResult r)
  with assms show ?thesis using moves_ApplyChildResult [of s r] by simp
next
  case (EvStatusTabletPicked p)
  with assms show ?thesis using moves_StatusTabletPicked [of s p] by simp
next
  case (EvLookupTabletDone st h)
  with assms show ?thesis by (auto intro: moves_fate fate_LookupTabletDone)
next
  case (EvSendHeartbeat fl ts alive)
  with assms show ?thesis by (auto intro: moves_fate fate_SendHeartbeat)
next
  case (EvHeartbeatDone fl st ht ts)
  with assms show ?thesis by (simp add: moves_HeartbeatDone)
next
  case (EvCommitDone st ht)
  with assms show ?thesis by (auto intro: moves_fate fate_CommitDone)
next
  case (EvAbortDone st r)
  with assms show ?thesis using fate_AbortDone [of st r s] by (auto intro: moves_fate)
qed

lemma run_moves: "run evs s = Inr s' \<Longrightarrow> moves s s'"
proof (induction evs arbitrary: s)
  case Nil
  then show ?case by (simp add: moves_refl)
next
  case (Cons e es)
  then obtain s1 where "step e s = Inr s1" "run es s1 = Inr s'"
    by (auto split: sum.splits)
  then show ?case using Cons.IH step_moves moves_trans by blast
qed

lemma step_admits: "step e s = Inr s1 \<Longrightarrow> admits e s \<subseteq> fst ` set (tablets s1)"
proof (cases e)
  case (EvPrepare ops n slot)
  assume "step e s = Inr s1"
  with EvPrepare have s1: "s1 = snd (snd (Prepare ops (UserWaiter n) slot s))" by auto
  show ?thesis
  proof (cases "ready s")
    case True
    obtain tbl f where p: "Prepare_ops ops (tablets s) False = (tbl, f)" by force
    with Prepare_ops_covers [of ops "tablets s" False]
    have "tablet ` set ops \<subseteq> fst ` set tbl" by simp
    with True p s1 EvPrepare show ?thesis by (simp add: Prepare_def)
  next
    case False
    with EvPrepare show ?thesis by (simp add: Prepare_def)
  qed
qed auto

lemma run_admitted: "run evs s = Inr s' \<Longrightarrow> admitted evs s \<subseteq> fst ` set (tablets s')"
proof (induction evs arbitrary: s)
  case Nil
  then show ?case by simp
next
  case (Cons e es)
  then obtain s1 where s1: "step e s = Inr s1" "run es s1 = Inr s'"
    by (auto split: sum.splits)
  have "admits e s \<subseteq> fst ` set (tablets s1)" using s1(1) by (rule step_admits)
  moreover have "fst ` set (tablets s1) \<subseteq> fst ` set (tablets s')"
    using run_moves [OF s1(2)] by (simp add: moves_def)
  moreover have "admitted es s1 \<subseteq> fst ` set (tablets s')" using s1(2) by (rule Cons.IH)
  ultimately show ?case using s1(1) by auto
qed

subsection \<open>Waiters\<close>

lemma SetError_leaves_waiters:
  "waiters (SetError st s) = waiters s \<and> calls (SetError st s) = calls s \<and>
   ready (SetError st s) = ready s"
  by (simp add: SetError_def)

lemma Prepare_enqueues: "\<not> ready s \<Longrightarrow> waiters (snd (snd (Prepare ops w slot s))) = waiters s @ [w]"
  by (simp add: Prepare_def)

lemma Commit_enqueues:
  "\<not> ready s \<Longrightarrow> state s = kRunning \<Longrightarrow> \<not> child s \<Longrightarrow> \<not> IsRestartRequired (read_point s) \<Longrightarrow>
   \<exists>s'. Commit cb s = Inr s' \<and> waiters s' = waiters s @ [DoCommitWaiter]"
  by (simp add: Commit_def CheckRunning_def)

lemma Abort_enqueues:
  "\<not> ready s \<Longrightarrow> state s = kRunning \<Longrightarrow> \<not> child s \<Longrightarrow>
   \<exists>s'. Abort s = Inr s' \<and> waiters s' = waiters s @ [DoAbortWaiter]"
  by (simp add: Abort_def)

lemma PrepareChild_enqueues:
  "\<not> ready s \<Longrightarrow> state s = kRunning \<Longrightarrow> \<not> IsRestartRequired (read_point s) \<Longrightarrow>
   waiters (PrepareChild cb s) = waiters s @ [DoPrepareChildWaiter cb]"
  by (simp add: PrepareChild_def CheckRunning_def)

lemma invoke_waiters_user:
  "invoke_waiters (map UserWaiter ns) st s =
     Inr (s\<lparr>calls := calls s @ map (\<lambda>n. WaiterCall n st) ns\<rparr>)"
  by (induction ns arbitrary: s) (simp_all add: invoke_waiter_def call_def)

text \<open>The acknowledged \<^verbatim>\<open>CREATED\<close> heartbeat empties the queue and calls the callers' waiters
  with OK, front to back.\<close>

lemma HeartbeatDone_created_notifies:
  "waiters s = map UserWaiter ns \<Longrightarrow>
   HeartbeatDone fl OK ht CREATED s =
     Inr (s\<lparr>ready := True, waiters := [],
            calls := calls s @ [UpdateClock ht, Unregister heartbeat_handle] @
                     map (\<lambda>n. WaiterCall n OK) ns @ [Schedule PENDING]\<rparr>)"
  by (simp add: HeartbeatDone_def HeartbeatDone_ok_def Let_def call_def invoke_waiters_user)

text \<open>Nothing else notifies a waiter: a transaction that is committed or aborted before it
  is ready never sends the \<^verbatim>\<open>CREATED\<close> heartbeat, because \<^verbatim>\<open>SendHeartbeat\<close> returns
  at once when the state is not running; its \<^verbatim>\<open>DoCommit\<close> waiter stays queued.\<close>

lemma commit_before_ready_stays_queued:
  "observe (run [EvCommit 1, EvStatusTabletPicked (Value ''status''),
                 EvLookupTabletDone OK (Some ''status'')] example_txn) =
     Inr (kCommitted, OK, False, [DoCommitWaiter],
          [PickStatusTablet, LookupTabletById ''status''])"
  by (simp add: coordinator_defs)

subsection \<open>Resolution\<close>

lemma StatusTabletPicked_failed:
  "StatusTabletPicked (Failed c m) s = SetError (STATUS c m) s"
  by (simp add: StatusTabletPicked_def)

lemma LookupTabletDone_status_unused: "LookupTabletDone st holder s = LookupTabletDone OK holder s"
  by (simp add: LookupTabletDone_def)

subsection \<open>The invariant of the latched error\<close>

lemma error_latched_new: "error_latched (Impl_new now new_id p lvl)"
  by (simp add: error_latched_def Impl_new_def Let_def)

lemma error_latched_child: "error_latched (Impl_child md rt limits)"
  by (simp add: error_latched_def Impl_child_def)

lemma run_error_latched: "run evs s = Inr s' \<Longrightarrow> error_latched s \<Longrightarrow> error_latched s'"
  using run_moves [of evs s s'] by (simp add: moves_def)

subsection \<open>The status tablet of a ready transaction\<close>

lemma heartbeat_sent_call [simp]: "heartbeat_sent (call c s) = (heartbeat_sent s \<or> is_heartbeat c)"
  by (auto simp: heartbeat_sent_def call_def)

lemma heartbeat_sent_RequestStatusTablet [simp]:
  "heartbeat_sent (RequestStatusTablet s) = heartbeat_sent s"
  by (simp add: RequestStatusTablet_def) (simp add: heartbeat_sent_def)

lemma heartbeat_sent_updates [simp]:
  "heartbeat_sent (s\<lparr>waiters := w\<rparr>) = heartbeat_sent s"
  "heartbeat_sent (s\<lparr>state := st\<rparr>) = heartbeat_sent s"
  "heartbeat_sent (s\<lparr>error := e\<rparr>) = heartbeat_sent s"
  "heartbeat_sent (s\<lparr>tablets := t\<rparr>) = heartbeat_sent s"
  "heartbeat_sent (s\<lparr>ready := r\<rparr>) = heartbeat_sent s"
  "heartbeat_sent (s\<lparr>commit_callback := c\<rparr>) = heartbeat_sent s"
  "heartbeat_sent (s\<lparr>read_point := rp\<rparr>) = heartbeat_sent s"
  "heartbeat_sent (s\<lparr>metadata := md\<rparr>) = heartbeat_sent s"
  "heartbeat_sent (s\<lparr>status_tablet := t'\<rparr>) = heartbeat_sent s"
  "heartbeat_sent (s\<lparr>status_tablet_holder := h\<rparr>) = heartbeat_sent s"
  by (simp_all add: heartbeat_sent_def)

lemma route_call: "\<not> is_heartbeat c \<Longrightarrow> route (call c s) = route s"
  by (simp add: route_def)

lemma route_invoke_commit_callback: "invoke_commit_callback st s = Inr s' \<Longrightarrow> route s' = route s"
  by (auto simp: invoke_commit_callback_def route_def split: option.splits)

lemma route_DoAbort: "DoAbort st s = Inr s' \<Longrightarrow> route s' = route s"
  by (auto simp: DoAbort_def route_def split: option.splits if_splits)

lemma route_DoCommit: "DoCommit st s = Inr s' \<Longrightarrow> route s' = route s"
  by (auto simp: DoCommit_def route_call split: option.splits if_splits sum.splits
      dest!: route_DoAbort route_invoke_commit_callback)

lemma route_DoPrepareChild: "route (DoPrepareChild st cb s) = route s"
  by (simp add: DoPrepareChild_def route_call)

lemma route_invoke_waiter: "invoke_waiter w st s = Inr s' \<Longrightarrow> route s' = route s"
  by (auto simp: invoke_waiter_def route_call route_DoPrepareChild split: Waiter.splits
      dest!: route_DoAbort route_DoCommit)

lemma route_invoke_waiters: "invoke_waiters ws st s = Inr s' \<Longrightarrow> route s' = route s"
proof (induction ws arbitrary: s)
  case Nil
  then show ?case by simp
next
  case (Cons w ws)
  then show ?case
    by (auto split: sum.splits dest!: route_invoke_waiter)
qed

lemma resolved_route: "route s' = route s \<Longrightarrow> resolved s \<Longrightarrow> resolved s'"
  by (simp add: resolved_def route_def)

lemma resolved_HeartbeatDone_ok:
  assumes "HeartbeatDone_ok ht ts s = Inr s'" and "resolved s"
    and "ts = CREATED \<longrightarrow> heartbeat_sent s"
  shows "resolved s'"
proof (cases "ts = CREATED")
  case False
  with assms(1) have "route s' = route s"
    by (auto simp: HeartbeatDone_ok_def Let_def route_def)
  then show ?thesis using assms(2) by (rule resolved_route)
next
  case True
  let ?s1 = "call (Unregister heartbeat_handle) (call (UpdateClock ht) s)"
  from True assms(1) obtain s2 where
    w: "invoke_waiters (waiters ?s1) OK (?s1\<lparr>ready := True, waiters := []\<rparr>) = Inr s2"
    and s': "s' = call (Schedule PENDING) s2"
    by (auto simp: HeartbeatDone_ok_def Let_def split: sum.splits)
  from True assms(2,3) have "resolved (?s1\<lparr>ready := True, waiters := []\<rparr>)"
    by (simp add: resolved_def)
  with route_invoke_waiters [OF w] have "resolved s2" by (rule resolved_route)
  then show ?thesis unfolding s' by (simp add: resolved_def)
qed

lemma resolved_SendHeartbeat:
  assumes "SendHeartbeat fl ts alive s = Inr s'" and "resolved s"
  shows "resolved s'"
proof (cases "\<not> alive \<or> state s \<noteq> kRunning")
  case True
  with assms show ?thesis by (simp add: SendHeartbeat_def)
next
  case run: False
  show ?thesis
  proof (cases "ts \<noteq> CREATED \<and> fl")
    case True
    with run assms(1) have "HeartbeatDone_ok kInvalid ts s = Inr s'"
      by (simp add: SendHeartbeat_def)
    from resolved_HeartbeatDone_ok [OF this assms(2)] True show ?thesis by simp
  next
    case False
    with run assms show ?thesis
      by (auto simp: SendHeartbeat_def resolved_def split: option.splits)
  qed
qed

lemma resolved_SetError: "resolved (SetError st s) = resolved s"
  by (simp add: SetError_def resolved_def)

lemma step_resolved:
  assumes "step e s = Inr s'" and "deliverable e s" and "resolved s"
  shows "resolved s'"
proof (cases e)
  case (EvPrepare ops n slot)
  with assms show ?thesis
    by (auto simp: Prepare_def resolved_def split: prod.splits if_splits)
next
  case (EvFlushed ops st)
  with assms show ?thesis
    by (auto simp: Flushed_def resolved_SetError split: if_splits sum.splits)
      (simp add: resolved_def)
next
  case (EvCommit cb)
  with assms show ?thesis
    by (auto simp: Commit_def resolved_def route_def split: if_splits dest!: route_DoCommit)
next
  case EvAbort
  with assms show ?thesis
    by (auto simp: Abort_def resolved_def route_def split: if_splits dest!: route_DoAbort)
next
  case (EvSetupRestart mf rt other)
  with assms show ?thesis
    by (auto simp: SetupRestart_def resolved_def route_def split: if_splits sum.splits
        dest!: route_DoAbort)
next
  case (EvPrepareChild cb)
  with assms show ?thesis
    by (auto simp: PrepareChild_def DoPrepareChild_def resolved_def split: if_splits)
next
  case EvFinishChild
  with assms show ?thesis by (auto simp: FinishChild_def resolved_def split: if_splits)
next
  case (EvApplyChildResult r)
  with assms show ?thesis by (auto simp: ApplyChildResult_def resolved_def split: if_splits)
next
  case (EvStatusTabletPicked p)
  with assms show ?thesis
    by (cases p) (auto simp: StatusTabletPicked_def resolved_SetError, simp add: resolved_def)
next
  case (EvLookupTabletDone st h)
  with assms(1) obtain t where h: "h = Some t"
    and sh: "SendHeartbeat False CREATED True
               (s\<lparr>status_tablet := Some t, status_tablet_holder := None,
                  metadata := (metadata s)\<lparr>status_tablet_id := t\<rparr>\<rparr>) = Inr s'"
    by (auto simp: LookupTabletDone_def split: option.splits)
  have "resolved (s\<lparr>status_tablet := Some t, status_tablet_holder := None,
                  metadata := (metadata s)\<lparr>status_tablet_id := t\<rparr>\<rparr>)"
    by (simp add: resolved_def)
  with sh show ?thesis by (rule resolved_SendHeartbeat)
next
  case (EvSendHeartbeat fl ts alive)
  with assms show ?thesis by (auto intro: resolved_SendHeartbeat)
next
  case (EvHeartbeatDone fl st ht ts)
  with assms(2) have hs: "heartbeat_sent s" by simp
  show ?thesis
  proof (cases "ok st")
    case True
    with EvHeartbeatDone assms(1) have "HeartbeatDone_ok ht ts s = Inr s'"
      by (simp add: HeartbeatDone_def)
    from resolved_HeartbeatDone_ok [OF this assms(3)] hs show ?thesis by simp
  next
    case False
    let ?s1 = "call (LOG_WARNING ''Send heartbeat failed'')
                 (call (Unregister heartbeat_handle) (call (UpdateClock ht) s))"
    have r1: "resolved ?s1" using assms(3) by (simp add: resolved_def)
    show ?thesis
    proof (cases "IsExpired st")
      case True
      with False EvHeartbeatDone assms(1) have "s' = SetError st ?s1"
        by (simp add: HeartbeatDone_def Let_def)
      with r1 show ?thesis by (simp add: resolved_SetError)
    next
      case nexp: False
      with False EvHeartbeatDone assms(1) have "SendHeartbeat fl ts True ?s1 = Inr s'"
        by (simp add: HeartbeatDone_def Let_def)
      from resolved_SendHeartbeat [OF this r1] show ?thesis .
    qed
  qed
next
  case (EvCommitDone st ht)
  with assms show ?thesis
    by (auto simp: CommitDone_def resolved_def route_def dest!: route_invoke_commit_callback)
next
  case (EvAbortDone st r)
  with assms show ?thesis by (auto simp: AbortDone_def resolved_def split: option.splits)
qed

lemma run_resolved: "run evs s = Inr s' \<Longrightarrow> protocol evs s \<Longrightarrow> resolved s \<Longrightarrow> resolved s'"
proof (induction evs arbitrary: s)
  case Nil
  then show ?case by simp
next
  case (Cons e es)
  from Cons.prems(1) obtain s1 where s1: "step e s = Inr s1" "run es s1 = Inr s'"
    by (auto split: sum.splits)
  from Cons.prems(2) s1(1) have d: "deliverable e s" and p: "protocol es s1" by auto
  from step_resolved [OF s1(1) d Cons.prems(3)] have "resolved s1" .
  from Cons.IH [OF s1(2) p this] show ?case .
qed

lemma resolved_new: "resolved (Impl_new now new_id p lvl)"
  by (simp add: resolved_def heartbeat_sent_def Impl_new_def Let_def)

lemma resolved_child: "resolved (Impl_child md rt limits)"
  by (simp add: resolved_def heartbeat_sent_def Impl_child_def)

lemma ready_has_status_tablet:
  "run evs (Impl_new now new_id p lvl) = Inr s \<Longrightarrow> protocol evs (Impl_new now new_id p lvl) \<Longrightarrow>
   ready s \<Longrightarrow> \<not> child s \<Longrightarrow> \<exists>t. status_tablet s = Some t"
  using run_resolved [OF _ _ resolved_new, of evs now new_id p lvl s]
  by (auto simp: resolved_def)

lemma protocol_snoc:
  "run evs s = Inr s' \<Longrightarrow> protocol (evs @ [e]) s = (protocol evs s \<and> deliverable e s')"
  by (induction evs arbitrary: s) (auto split: sum.splits)

text \<open>In every run of a new transaction that respects the protocol, a completed heartbeat
  finds the status tablet resolved.\<close>

lemma completed_heartbeat_has_status_tablet:
  assumes "run evs (Impl_new now new_id p lvl) = Inr s"
    and "protocol (evs @ [EvHeartbeatDone fl st ht ts]) (Impl_new now new_id p lvl)"
  shows "\<exists>t. status_tablet s = Some t"
proof -
  from assms have pr: "protocol evs (Impl_new now new_id p lvl)" and hs: "heartbeat_sent s"
    by (simp_all add: protocol_snoc)
  from run_resolved [OF assms(1) pr resolved_new] hs show ?thesis
    by (auto simp: resolved_def)
qed

section \<open>The claims\<close>

text \<open>Claim C1. While the coordinator is not ready, Prepare, Commit, Abort and PrepareChild
  enqueue a waiter, and each waiter is to fire exactly once, in insertion order: with OK on
  the acknowledged CREATED heartbeat, or with the resolution error when the resolution of the
  status tablet fails.

  The code does the first half (the lemmas of the subsection on waiters). It does not do the
  second: \<^verbatim>\<open>SetError\<close> records the error and stores the aborted state, and notifies
  nobody. Evaluated here: a transaction whose first Prepare is postponed and whose
  status-tablet pick then fails is aborted with the error recorded, the caller's waiter is
  still queued, and the only call made is the pick.\<close>

theorem waiters_not_notified_of_resolution_failure:
  "observe (run [EvPrepare [\<lparr>tablet = ''A'', yb_op_succeeded = False\<rparr>] 1 empty_slot,
                 EvStatusTabletPicked (Failed kTimedOut ''no status tablet'')] example_txn) =
     Inr (kAborted, STATUS kTimedOut ''no status tablet'', False, [UserWaiter 1],
          [PickStatusTablet])"
  by (simp add: coordinator_defs)

text \<open>Claim C2, as amended. Over every run, a state other than running is never left for
  running, the aborted state is never left, and the committed state is left only for the
  aborted state, and only by a call that records the first error.\<close>

theorem state_only_moves_forward:
  assumes "run evs s = Inr s'"
  shows "state s = kRunning \<or> state s' = state s \<or>
         (state s = kCommitted \<and> state s' = kAborted \<and> ok (error s) \<and> \<not> ok (error s'))"
  using run_moves [OF assms] by (simp add: moves_def)

theorem state_only_moves_forward_witness:
  "run [EvStatusTabletPicked (Failed kTimedOut ''no status tablet'')] example_committed =
     Inr (SetError (STATUS kTimedOut ''no status tablet'') example_committed) \<and>
   state example_committed = kCommitted \<and>
   state (SetError (STATUS kTimedOut ''no status tablet'') example_committed) = kAborted \<and>
   ok (error example_committed) \<and>
   \<not> ok (error (SetError (STATUS kTimedOut ''no status tablet'') example_committed))"
proof -
  have r: "run [EvStatusTabletPicked (Failed kTimedOut ''no status tablet'')] example_committed =
             Inr (SetError (STATUS kTimedOut ''no status tablet'') example_committed)"
    by (simp add: StatusTabletPicked_def)
  from state_only_moves_forward [OF r] r show ?thesis
    by (simp add: coordinator_defs)
qed

text \<open>The claim as it stands fails: a Commit before readiness stores the committed state,
  and the failure of the status-tablet pick then stores the aborted state.\<close>

theorem state_leaves_committed:
  "observe (run [EvCommit 1] example_txn) =
     Inr (kCommitted, OK, False, [DoCommitWaiter], [PickStatusTablet]) \<and>
   observe (run [EvCommit 1, EvStatusTabletPicked (Failed kTimedOut ''no status tablet'')]
              example_txn) =
     Inr (kAborted, STATUS kTimedOut ''no status tablet'', False, [DoCommitWaiter],
          [PickStatusTablet])"
  by (simp add: coordinator_defs)

text \<open>Claim C3. Whenever the resolution of the status tablet fails, at the pick or at the
  lookup, SetError is called with the failure: the error is recorded and the state becomes
  aborted.

  The code does so for the pick (\<open>StatusTabletPicked_failed\<close>). \<^verbatim>\<open>LookupTabletDone\<close>
  never reads its status (\<open>LookupTabletDone_status_unused\<close>). Evaluated here: after a lookup
  that timed out and left no descriptor, the null \<^verbatim>\<open>status_tablet_\<close> is dereferenced; had
  the holder been filled, the transaction would go on running with no error recorded and
  send the CREATED heartbeat.\<close>

theorem LookupTabletDone_ignores_failure:
  "observe (run [EvPrepare [] 1 empty_slot,
                 EvStatusTabletPicked (Value ''status''),
                 EvLookupTabletDone (STATUS kTimedOut ''lookup timed out'') None] example_txn) =
     Inl NullPointer \<and>
   observe (run [EvPrepare [] 1 empty_slot,
                 EvStatusTabletPicked (Value ''status''),
                 EvLookupTabletDone (STATUS kTimedOut ''lookup timed out'') (Some ''status'')]
              example_txn) =
     Inr (kRunning, OK, False, [UserWaiter 1],
          [PickStatusTablet, LookupTabletById ''status'',
           RegisterAndStart (UpdateTransaction ''status'' ''txn'' CREATED []) heartbeat_handle])"
  by (simp add: coordinator_defs)

text \<open>Claim C4. Prepare returns false exactly when the coordinator is not ready; then the
  waiter is enqueued, the resolution is requested (the pick is called unless it was requested
  before) and neither the table nor the caller's metadata slot changes. When it returns true,
  every tablet of the operations has an entry in the table afterwards, and the slot holds the
  full metadata if and only if some operation goes to a tablet that had no entry or whose
  entry had \<open>has_parameters\<close> false; otherwise only its transaction id is overwritten.\<close>

theorem Prepare_contract:
  "fst (Prepare ops w slot s) = ready s \<and>
   (\<not> ready s \<longrightarrow>
      fst (snd (Prepare ops w slot s)) = slot \<and>
      waiters (snd (snd (Prepare ops w slot s))) = waiters s @ [w] \<and>
      requested_status_tablet (snd (snd (Prepare ops w slot s))) \<and>
      calls (snd (snd (Prepare ops w slot s))) =
        (if requested_status_tablet s then calls s else calls s @ [PickStatusTablet]) \<and>
      tablets (snd (snd (Prepare ops w slot s))) = tablets s) \<and>
   (ready s \<longrightarrow>
      (\<forall>x\<in>set ops. tablet x \<in> fst ` set (tablets (snd (snd (Prepare ops w slot s))))) \<and>
      fst (snd (Prepare ops w slot s)) =
        (if \<exists>x\<in>set ops. case map_of (tablets s) (tablet x) of
                              None \<Rightarrow> True
                            | Some st \<Rightarrow> \<not> has_parameters st
         then metadata s
         else slot\<lparr>transaction_id := transaction_id (metadata s)\<rparr>))"
proof (cases "ready s")
  case False
  then show ?thesis
    by (simp add: Prepare_def RequestStatusTablet_def call_def)
next
  case True
  obtain tbl f where p: "Prepare_ops ops (tablets s) False = (tbl, f)" by force
  have f: "f = (\<exists>x\<in>set ops. case map_of (tablets s) (tablet x) of
                              None \<Rightarrow> True
                            | Some st \<Rightarrow> \<not> has_parameters st)"
    using Prepare_ops_flag [of ops "tablets s" False] p by simp
  have c: "tablet ` set ops \<subseteq> fst ` set tbl"
    using Prepare_ops_covers [of ops "tablets s" False] p by simp
  have r: "Prepare ops w slot s =
      (True, if f then metadata s else slot\<lparr>transaction_id := transaction_id (metadata s)\<rparr>,
       s\<lparr>tablets := tbl\<rparr>)"
    using True p by (simp add: Prepare_def)
  show ?thesis unfolding r using True c f by auto
qed

text \<open>A postponed Prepare; a Prepare on two new tablets, which gets the full metadata; and,
  after the batch was flushed with the operation on A succeeded, a Prepare on A alone, which
  gets only the transaction id.\<close>

theorem Prepare_contract_witness:
  "\<not> ready example_txn \<and>
   fst (Prepare example_batch (UserWaiter 2) empty_slot example_txn) = False \<and>
   waiters (snd (snd (Prepare example_batch (UserWaiter 2) empty_slot example_txn))) =
     waiters example_txn @ [UserWaiter 2] \<and>
   ready example_ready \<and>
   fst (Prepare example_batch (UserWaiter 2) empty_slot example_ready) = True \<and>
   fst (snd (Prepare example_batch (UserWaiter 2) empty_slot example_ready)) =
     metadata example_ready \<and>
   ready example_flushed \<and>
   fst (snd (Prepare [\<lparr>tablet = ''A'', yb_op_succeeded = False\<rparr>] (UserWaiter 3) empty_slot
               example_flushed)) =
     empty_slot\<lparr>transaction_id := transaction_id (metadata example_flushed)\<rparr>"
proof -
  have n: "\<not> ready example_txn" by (simp add: coordinator_defs)
  have r: "ready example_ready" by (simp add: coordinator_defs)
  have u: "\<exists>x\<in>set example_batch. case map_of (tablets example_ready) (tablet x) of
             None \<Rightarrow> True | Some st \<Rightarrow> \<not> has_parameters st"
    by (simp add: coordinator_defs) blast
  have r': "ready example_flushed" by (simp add: coordinator_defs)
  have u': "\<not> (\<exists>x\<in>set [\<lparr>tablet = ''A'', yb_op_succeeded = False\<rparr>].
               case map_of (tablets example_flushed) (tablet x) of
                 None \<Rightarrow> True | Some st \<Rightarrow> \<not> has_parameters st)"
    by (simp add: coordinator_defs)
  from Prepare_contract [of example_batch "UserWaiter 2" empty_slot example_txn] n
  have a: "fst (Prepare example_batch (UserWaiter 2) empty_slot example_txn) = False \<and>
     waiters (snd (snd (Prepare example_batch (UserWaiter 2) empty_slot example_txn))) =
       waiters example_txn @ [UserWaiter 2]"
    by simp
  from Prepare_contract [of example_batch "UserWaiter 2" empty_slot example_ready] r u
  have b: "fst (Prepare example_batch (UserWaiter 2) empty_slot example_ready) = True \<and>
     fst (snd (Prepare example_batch (UserWaiter 2) empty_slot example_ready)) =
       metadata example_ready"
    by simp
  from Prepare_contract [of "[\<lparr>tablet = ''A'', yb_op_succeeded = False\<rparr>]" "UserWaiter 3"
      empty_slot example_flushed] r' u'
  have c: "fst (snd (Prepare [\<lparr>tablet = ''A'', yb_op_succeeded = False\<rparr>] (UserWaiter 3)
       empty_slot example_flushed)) =
     empty_slot\<lparr>transaction_id := transaction_id (metadata example_flushed)\<rparr>"
    by simp
  from n r r' a b c show ?thesis by blast
qed

text \<open>Claim C5. After Flushed with an OK status, the entry of every tablet to which a
  succeeded operation of the batch went has \<open>has_parameters\<close> true, the entries of all other
  tablets are unchanged, and so is everything outside the table. Flushed returns when every
  succeeded operation's tablet has an entry (otherwise its CHECK fails).\<close>

theorem Flushed_marks_succeeded:
  assumes "ok status"
  shows "(\<forall>s'. Flushed ops status s = Inr s' \<longrightarrow>
            s' = s\<lparr>tablets := tablets s'\<rparr> \<and>
            (\<forall>t. map_of (tablets s') t =
               (if \<exists>x\<in>set ops. yb_op_succeeded x \<and> tablet x = t
                then Some \<lparr>has_parameters = True\<rparr>
                else map_of (tablets s) t))) \<and>
         ((\<forall>x\<in>set ops. yb_op_succeeded x \<longrightarrow> tablet x \<in> fst ` set (tablets s)) \<longrightarrow>
            (\<exists>s'. Flushed ops status s = Inr s'))"
proof -
  have a: "s' = s\<lparr>tablets := tablets s'\<rparr> \<and>
            (\<forall>t. map_of (tablets s') t =
               (if \<exists>x\<in>set ops. yb_op_succeeded x \<and> tablet x = t
                then Some \<lparr>has_parameters = True\<rparr>
                else map_of (tablets s) t))"
    if r: "Flushed ops status s = Inr s'" for s'
  proof -
    from r assms obtain tbl where t: "Flushed_ops None ops (tablets s) = Inr tbl"
      and s': "s' = s\<lparr>tablets := tbl\<rparr>"
      by (auto simp: Flushed_def split: sum.splits)
    from Flushed_ops_result [OF t] s' show ?thesis by simp
  qed
  have b: "\<exists>s'. Flushed ops status s = Inr s'"
    if p: "\<forall>x\<in>set ops. yb_op_succeeded x \<longrightarrow> tablet x \<in> fst ` set (tablets s)"
  proof -
    from Flushed_ops_returns [OF p]
    obtain tbl where "Flushed_ops None ops (tablets s) = Inr tbl" by blast
    with assms show ?thesis by (simp add: Flushed_def)
  qed
  from a b show ?thesis by blast
qed

theorem Flushed_marks_succeeded_witness:
  "Flushed example_batch OK example_prepared =
     Inr (example_prepared\<lparr>tablets := [(''A'', \<lparr>has_parameters = True\<rparr>),
                                        (''B'', \<lparr>has_parameters = False\<rparr>)]\<rparr>) \<and>
   tablets example_prepared =
     [(''A'', \<lparr>has_parameters = False\<rparr>), (''B'', \<lparr>has_parameters = False\<rparr>)]"
  using Flushed_marks_succeeded [of OK example_batch example_prepared]
  by (simp add: coordinator_defs)

text \<open>Claim C6. Flushed with a TryAgain status on a running transaction records the error
  and stores the aborted state. Every Commit after that, whatever was called in between,
  hands exactly that error to its callback. Flushed with any other status that is not OK
  changes nothing.\<close>

theorem Flushed_TryAgain:
  assumes "state s = kRunning" and "error_latched s" and "IsTryAgain st"
  shows "Flushed ops st s = Inr (s\<lparr>error := st, state := kAborted\<rparr>) \<and>
         (\<forall>evs s2. run evs (s\<lparr>error := st, state := kAborted\<rparr>) = Inr s2 \<longrightarrow>
            Commit cb s2 = Inr (call (CommitCallbackCall cb st) s2)) \<and>
         (\<forall>st'. \<not> ok st' \<and> \<not> IsTryAgain st' \<longrightarrow> Flushed ops st' s = Inr s)"
proof -
  from assms(3) have nok: "\<not> ok st" by (cases st) auto
  from assms(1,2) have e: "ok (error s)" by (simp add: error_latched_def)
  have f: "Flushed ops st s = Inr (s\<lparr>error := st, state := kAborted\<rparr>)"
    using nok e assms(3) by (simp add: Flushed_def SetError_def)
  have c: "Commit cb s2 = Inr (call (CommitCallbackCall cb st) s2)"
    if r: "run evs (s\<lparr>error := st, state := kAborted\<rparr>) = Inr s2" for evs s2
  proof -
    from run_moves [OF r] nok have "error s2 = st" "state s2 = kAborted"
      by (auto simp: moves_def)
    with nok show ?thesis by (simp add: Commit_def CheckRunning_def)
  qed
  have o: "Flushed ops st' s = Inr s" if "\<not> ok st' \<and> \<not> IsTryAgain st'" for st'
    using that by (simp add: Flushed_def)
  from f c o show ?thesis by blast
qed

theorem Flushed_TryAgain_witness:
  "state example_prepared = kRunning \<and> error_latched example_prepared \<and>
   IsTryAgain (STATUS kTryAgain ''conflict'') \<and>
   Flushed example_batch (STATUS kTryAgain ''conflict'') example_prepared =
     Inr (example_prepared\<lparr>error := STATUS kTryAgain ''conflict'', state := kAborted\<rparr>) \<and>
   Commit 5 (example_prepared\<lparr>error := STATUS kTryAgain ''conflict'', state := kAborted\<rparr>) =
     Inr (call (CommitCallbackCall 5 (STATUS kTryAgain ''conflict''))
            (example_prepared\<lparr>error := STATUS kTryAgain ''conflict'', state := kAborted\<rparr>)) \<and>
   Flushed example_batch (STATUS kTimedOut ''late'') example_prepared = Inr example_prepared"
proof -
  have h1: "state example_prepared = kRunning" by (simp add: coordinator_defs)
  have h2: "error_latched example_prepared" by (simp add: error_latched_def coordinator_defs)
  have h3: "IsTryAgain (STATUS kTryAgain ''conflict'')" by simp
  have r: "run [] (example_prepared\<lparr>error := STATUS kTryAgain ''conflict'', state := kAborted\<rparr>) =
             Inr (example_prepared\<lparr>error := STATUS kTryAgain ''conflict'', state := kAborted\<rparr>)"
    by simp
  have o: "\<not> ok (STATUS kTimedOut ''late'') \<and> \<not> IsTryAgain (STATUS kTimedOut ''late'')" by simp
  note t = Flushed_TryAgain [OF h1 h2 h3, of example_batch 5]
  from t have a: "Flushed example_batch (STATUS kTryAgain ''conflict'') example_prepared =
     Inr (example_prepared\<lparr>error := STATUS kTryAgain ''conflict'', state := kAborted\<rparr>)"
    by blast
  from t r have b: "Commit 5 (example_prepared\<lparr>error := STATUS kTryAgain ''conflict'', state := kAborted\<rparr>) =
     Inr (call (CommitCallbackCall 5 (STATUS kTryAgain ''conflict''))
            (example_prepared\<lparr>error := STATUS kTryAgain ''conflict'', state := kAborted\<rparr>))"
    by blast
  from t o have c: "Flushed example_batch (STATUS kTimedOut ''late'') example_prepared =
     Inr example_prepared"
    by blast
  from h1 h2 h3 a b c show ?thesis by blast
qed

text \<open>Claim C7. Commit on a ready, running transaction that is not a child, needs no
  restart and has an empty participant table stores the committed state, sends an abort
  request to the status tablet, and no update request, and calls the commit callback with OK.
  The status tablet is resolved: it is in every ready transaction that is not a child
  (\<open>ready_has_status_tablet\<close>).\<close>

theorem Commit_without_participants:
  assumes "ready s" and "state s = kRunning" and "\<not> child s"
    and "\<not> IsRestartRequired (read_point s)" and "tablets s = []"
    and "status_tablet s = Some t"
  shows "Commit cb s =
           Inr (s\<lparr>state := kCommitted, commit_callback := Some cb,
                  calls := calls s @
                    [RegisterAndStart (AbortTransaction t (transaction_id (metadata s)))
                       abort_handle,
                     CommitCallbackCall cb OK]\<rparr>)"
  using assms
  by (simp add: Commit_def CheckRunning_def DoCommit_def DoAbort_def
      invoke_commit_callback_def call_def)

theorem Commit_without_participants_witness:
  "ready example_ready \<and> state example_ready = kRunning \<and> \<not> child example_ready \<and>
   \<not> IsRestartRequired (read_point example_ready) \<and> tablets example_ready = [] \<and>
   status_tablet example_ready = Some ''status'' \<and>
   Commit 5 example_ready =
     Inr (example_ready\<lparr>state := kCommitted, commit_callback := Some 5,
            calls := calls example_ready @
              [RegisterAndStart
                 (AbortTransaction ''status'' (transaction_id (metadata example_ready)))
                 abort_handle,
               CommitCallbackCall 5 OK]\<rparr>)"
proof -
  have h1: "ready example_ready" by (simp add: coordinator_defs)
  have h2: "state example_ready = kRunning" by (simp add: coordinator_defs)
  have h3: "\<not> child example_ready" by (simp add: coordinator_defs)
  have h4: "\<not> IsRestartRequired (read_point example_ready)" by (simp add: coordinator_defs)
  have h5: "tablets example_ready = []" by (simp add: coordinator_defs)
  have h6: "status_tablet example_ready = Some ''status''" by (simp add: coordinator_defs)
  from Commit_without_participants [OF h1 h2 h3 h4 h5 h6, of 5] h1 h2 h3 h4 h5 h6
  show ?thesis by blast
qed

text \<open>Claim C8, as amended. When a heartbeat fails on a running transaction (which has no
  error recorded, \<open>run_error_latched\<close>, and whose status tablet is resolved,
  \<open>completed_heartbeat_has_status_tablet\<close>): an expired status is recorded by SetError, the
  state becomes aborted and nothing is sent or scheduled; any other error re-sends the same
  heartbeat status at once and leaves the state alone, unless the heartbeat is not the
  CREATED one and the flag that disables heartbeats in tests is set: then nothing is sent,
  the heartbeat counts as acknowledged, and the next PENDING heartbeat is scheduled.\<close>

theorem HeartbeatDone_failed:
  assumes "state s = kRunning" and "error_latched s" and "\<not> ok st"
    and "status_tablet s = Some t"
  shows "(IsExpired st \<longrightarrow>
            HeartbeatDone fl st ht ts s =
              Inr (s\<lparr>state := kAborted, error := st,
                     calls := calls s @ [UpdateClock ht, Unregister heartbeat_handle,
                                         LOG_WARNING ''Send heartbeat failed'']\<rparr>)) \<and>
         (\<not> IsExpired st \<and> (ts = CREATED \<or> \<not> fl) \<longrightarrow>
            HeartbeatDone fl st ht ts s =
              Inr (s\<lparr>calls := calls s @ [UpdateClock ht, Unregister heartbeat_handle,
                                         LOG_WARNING ''Send heartbeat failed'',
                                         RegisterAndStart
                                           (UpdateTransaction t (transaction_id (metadata s)) ts [])
                                           heartbeat_handle]\<rparr>)) \<and>
         (\<not> IsExpired st \<and> ts \<noteq> CREATED \<and> fl \<longrightarrow>
            HeartbeatDone fl st ht ts s =
              Inr (s\<lparr>calls := calls s @ [UpdateClock ht, Unregister heartbeat_handle,
                                         LOG_WARNING ''Send heartbeat failed'',
                                         UpdateClock kInvalid, Unregister heartbeat_handle,
                                         Schedule PENDING]\<rparr>))"
proof -
  from assms(1,2) have e: "ok (error s)" by (simp add: error_latched_def)
  show ?thesis
    using assms(1,3,4) e
    by (auto simp: HeartbeatDone_def SendHeartbeat_def HeartbeatDone_ok_def SetError_def
        call_def Let_def)
qed

theorem HeartbeatDone_failed_witness:
  "state example_ready = kRunning \<and> error_latched example_ready \<and>
   status_tablet example_ready = Some ''status'' \<and>
   HeartbeatDone False (STATUS kExpired ''gone'') (HybridTime 102) PENDING example_ready =
     Inr (example_ready\<lparr>state := kAborted, error := STATUS kExpired ''gone'',
            calls := calls example_ready @
              [UpdateClock (HybridTime 102), Unregister heartbeat_handle,
               LOG_WARNING ''Send heartbeat failed'']\<rparr>) \<and>
   HeartbeatDone False (STATUS kNetworkError ''reset'') (HybridTime 102) PENDING example_ready =
     Inr (example_ready\<lparr>calls := calls example_ready @
            [UpdateClock (HybridTime 102), Unregister heartbeat_handle,
             LOG_WARNING ''Send heartbeat failed'',
             RegisterAndStart
               (UpdateTransaction ''status'' (transaction_id (metadata example_ready)) PENDING [])
               heartbeat_handle]\<rparr>) \<and>
   HeartbeatDone True (STATUS kNetworkError ''reset'') (HybridTime 102) PENDING example_ready =
     Inr (example_ready\<lparr>calls := calls example_ready @
            [UpdateClock (HybridTime 102), Unregister heartbeat_handle,
             LOG_WARNING ''Send heartbeat failed'',
             UpdateClock kInvalid, Unregister heartbeat_handle, Schedule PENDING]\<rparr>)"
proof -
  have h1: "state example_ready = kRunning" by (simp add: coordinator_defs)
  have h2: "error_latched example_ready" by (simp add: error_latched_def coordinator_defs)
  have h4: "status_tablet example_ready = Some ''status''" by (simp add: coordinator_defs)
  have e: "\<not> ok (STATUS kExpired ''gone'')" "IsExpired (STATUS kExpired ''gone'')" by simp_all
  have n: "\<not> ok (STATUS kNetworkError ''reset'')" "\<not> IsExpired (STATUS kNetworkError ''reset'')"
    by simp_all
  have p: "PENDING \<noteq> CREATED" by simp
  from HeartbeatDone_failed [OF h1 h2 e(1) h4, of False "HybridTime 102" PENDING] e(2)
  have a: "HeartbeatDone False (STATUS kExpired ''gone'') (HybridTime 102) PENDING example_ready =
     Inr (example_ready\<lparr>state := kAborted, error := STATUS kExpired ''gone'',
            calls := calls example_ready @
              [UpdateClock (HybridTime 102), Unregister heartbeat_handle,
               LOG_WARNING ''Send heartbeat failed'']\<rparr>)"
    by blast
  from HeartbeatDone_failed [OF h1 h2 n(1) h4, of False "HybridTime 102" PENDING] n(2)
  have b: "HeartbeatDone False (STATUS kNetworkError ''reset'') (HybridTime 102) PENDING
       example_ready =
     Inr (example_ready\<lparr>calls := calls example_ready @
            [UpdateClock (HybridTime 102), Unregister heartbeat_handle,
             LOG_WARNING ''Send heartbeat failed'',
             RegisterAndStart
               (UpdateTransaction ''status'' (transaction_id (metadata example_ready)) PENDING [])
               heartbeat_handle]\<rparr>)"
    by blast
  from HeartbeatDone_failed [OF h1 h2 n(1) h4, of True "HybridTime 102" PENDING] n(2) p
  have c: "HeartbeatDone True (STATUS kNetworkError ''reset'') (HybridTime 102) PENDING
       example_ready =
     Inr (example_ready\<lparr>calls := calls example_ready @
            [UpdateClock (HybridTime 102), Unregister heartbeat_handle,
             LOG_WARNING ''Send heartbeat failed'',
             UpdateClock kInvalid, Unregister heartbeat_handle, Schedule PENDING]\<rparr>)"
    by blast
  from h1 h2 h4 a b c show ?thesis by blast
qed

text \<open>The claim as it stands fails: a PENDING heartbeat was sent, the test flag was set
  meanwhile, and the heartbeat failed with a network error. It is not sent again; the calls
  after the failure are the clock update, the unregistration, the warning, and then the
  bookkeeping of an acknowledged heartbeat and the scheduling of the next one.\<close>

theorem failed_heartbeat_not_resent_under_test_flag:
  "protocol (example_startup @
               [EvSendHeartbeat False PENDING True,
                EvHeartbeatDone True (STATUS kNetworkError ''connection reset'')
                  (HybridTime 102) PENDING]) example_txn \<and>
   observe (run (example_startup @
                 [EvSendHeartbeat False PENDING True,
                  EvHeartbeatDone True (STATUS kNetworkError ''connection reset'')
                    (HybridTime 102) PENDING]) example_txn) =
     Inr (kRunning, OK, True, [],
       [PickStatusTablet, LookupTabletById ''status'',
        RegisterAndStart (UpdateTransaction ''status'' ''txn'' CREATED []) heartbeat_handle,
        UpdateClock (HybridTime 101), Unregister heartbeat_handle, WaiterCall 1 OK,
        Schedule PENDING,
        RegisterAndStart (UpdateTransaction ''status'' ''txn'' PENDING []) heartbeat_handle,
        UpdateClock (HybridTime 102), Unregister heartbeat_handle,
        LOG_WARNING ''Send heartbeat failed'',
        UpdateClock kInvalid, Unregister heartbeat_handle, Schedule PENDING])"
  by (simp add: coordinator_defs heartbeat_sent_def)

text \<open>Claim C9. Applying the same child result twice gives the same participant table and
  the same read point as applying it once; indeed the same coordinator and the same
  returned status. The merge of the table is the code's; the merge of the read point is the
  spec's (union of the local limits, disjunction of the restart flags).\<close>

theorem ApplyChildResult_idempotent:
  "ApplyChildResult r (snd (ApplyChildResult r s)) = ApplyChildResult r s \<and>
   tablets (snd (ApplyChildResult r (snd (ApplyChildResult r s)))) =
     tablets (snd (ApplyChildResult r s)) \<and>
   read_point (snd (ApplyChildResult r (snd (ApplyChildResult r s)))) =
     read_point (snd (ApplyChildResult r s))"
proof -
  have "ApplyChildResult r (snd (ApplyChildResult r s)) = ApplyChildResult r s"
    by (simp add: ApplyChildResult_def CheckRunning_def fold_merge_tablet_idem
        ApplyChildTransactionResult_idem)
  then show ?thesis by simp
qed

text \<open>Claim C10. After any run, Flushed with an OK status returns, that is the CHECK that
  a succeeded operation's tablet is in the participant table holds, when the tablet of every
  succeeded operation of the batch was admitted by a Prepare call of the run that returned
  true. That no call removes an entry of the table is proved (\<open>run_moves\<close>), not
  assumed.\<close>

theorem Flushed_check_holds:
  assumes "run evs s = Inr s'"
    and "\<forall>x\<in>set ops. yb_op_succeeded x \<longrightarrow> tablet x \<in> admitted evs s"
  shows "\<exists>tbl. Flushed ops OK s' = Inr (s'\<lparr>tablets := tbl\<rparr>)"
proof -
  have "\<forall>x\<in>set ops. yb_op_succeeded x \<longrightarrow> tablet x \<in> fst ` set (tablets s')"
    using run_admitted [OF assms(1)] assms(2) by blast
  from Flushed_ops_returns [OF this]
  obtain tbl where "Flushed_ops None ops (tablets s') = Inr tbl" by blast
  then have "Flushed ops OK s' = Inr (s'\<lparr>tablets := tbl\<rparr>)" by (simp add: Flushed_def)
  then show ?thesis by blast
qed

theorem Flushed_check_holds_witness:
  "run (example_startup @ [EvPrepare example_batch 2 empty_slot]) example_txn =
     Inr example_prepared \<and>
   admitted (example_startup @ [EvPrepare example_batch 2 empty_slot]) example_txn =
     {''A'', ''B''} \<and>
   (\<exists>tbl. Flushed example_batch OK example_prepared = Inr (example_prepared\<lparr>tablets := tbl\<rparr>))"
proof -
  have r: "run (example_startup @ [EvPrepare example_batch 2 empty_slot]) example_txn =
     Inr example_prepared"
    by (simp add: coordinator_defs)
  have a: "admitted (example_startup @ [EvPrepare example_batch 2 empty_slot]) example_txn =
     {''A'', ''B''}"
    by (simp add: coordinator_defs)
  have h: "\<forall>x\<in>set example_batch. yb_op_succeeded x \<longrightarrow>
     tablet x \<in> admitted (example_startup @ [EvPrepare example_batch 2 empty_slot]) example_txn"
    unfolding a by (simp add: example_batch_def)
  from Flushed_check_holds [OF r h] r a show ?thesis by blast
qed

end
